theory Spec2Isabelle
  imports Complex_Main "HOL-Library.Multiset" "HOL-Library.Word"
begin

section \<open>Numbers, errors and arithmetic\<close>

text \<open>
  The notebooks compute with numpy. A score is a Python int or a Python float; numpy
  turns a tuple of Python ints into an array of 64-bit integers, whose sums and products
  wrap around, and a tuple with a float in it into an array of doubles. A Python int is
  given here as the 64-bit word numpy stores (ints that do not fit in 64 bits make numpy
  build an array of another kind and are left out). A double is given by its real value;
  a numpy float is a number or \<open>nan\<close>. Doubles beyond the largest double (overflow to
  \<open>inf\<close>) and below the smallest normal double are not modelled: the laws of the program
  proved below carry the bounds that keep every step inside that range. The only Python
  exception that the functions below can raise is \<open>ZeroDivisionError\<close> (from \<open>1/n\<close> on
  Python ints).
\<close>

datatype npfloat = NaN | Val real

datatype error = ZeroDivisionError

datatype pynum = PyInt "64 word" | PyFloat real

datatype ndarray = Int64 "64 word list" | Float64 "real list"

datatype npscalar = NpInt "64 word" | NpFloat real

text \<open>
  The arithmetic on doubles is a parameter of the embedding, in two parts: the rounding
  \<open>rnd\<close> that follows every operation, and the power function \<open>pwr\<close> of the C library on
  a positive base. In \<open>exact\<close> nothing is rounded: this is the reading of the
  specification ("a real number"). In \<open>float64\<close> every operation returns the nearest
  double, the power included; this is what the outputs recorded in the notebook show.
  The laws of the program below are proved for every power function that is accurate to
  one unit in the last place, which is less than a correctly rounded one.
\<close>

record arith =
  rnd :: "real \<Rightarrow> real"
  pwr :: "real \<Rightarrow> real \<Rightarrow> real"

definition ideal :: "real \<Rightarrow> real" where
  "ideal x = x"

text \<open>
  Rounding to the nearest double, ties to even: a nonzero \<open>x\<close> with
  \<open>2^k \<le> |x| < 2^(k+1)\<close> is rounded to the nearest multiple of \<open>2^(k-52)\<close>.
\<close>

definition rne :: "real \<Rightarrow> int" where
  "rne x =
     (let f = \<lfloor>x\<rfloor>; d = x - of_int f in
      if d < 1 / 2 then f
      else if 1 / 2 < d then f + 1
      else if even f then f else f + 1)"

definition binary64 :: "real \<Rightarrow> real" where
  "binary64 x =
     (if x = 0 then 0
      else let e = \<lfloor>log 2 \<bar>x\<bar>\<rfloor> - 52
           in of_int (rne (x / 2 powr of_int e)) * 2 powr of_int e)"

definition exact :: arith where
  "exact = \<lparr>rnd = ideal, pwr = (\<lambda>x y. x powr y)\<rparr>"

definition float64 :: arith where
  "float64 = \<lparr>rnd = binary64, pwr = (\<lambda>x y. binary64 (x powr y))\<rparr>"

text \<open>
  What the general laws below need of a rounding operator: it preserves order, keeps
  positive numbers positive and keeps 0. Both \<open>ideal\<close> and \<open>binary64\<close> do. And what they
  need of a power function: on the bases and exponents that \<open>gmean\<close> passes for 64-bit
  integer scores, its error is at most one unit in the last place.
\<close>

definition monotone_rounding :: "(real \<Rightarrow> real) \<Rightarrow> bool" where
  "monotone_rounding rd \<longleftrightarrow>
     (\<forall>a b. a \<le> b \<longrightarrow> rd a \<le> rd b) \<and> (\<forall>a. 0 < a \<longrightarrow> 0 < rd a) \<and> rd 0 = 0"

definition accurate_power :: "(real \<Rightarrow> real \<Rightarrow> real) \<Rightarrow> bool" where
  "accurate_power pw \<longleftrightarrow>
     (\<forall>x y. 1 \<le> x \<and> x \<le> 2 ^ 63 \<and> 0 < y \<and> y \<le> 1
        \<longrightarrow> \<bar>pw x y - x powr y\<bar> \<le> x powr y / 2 ^ 52)"

definition machine :: "arith \<Rightarrow> bool" where
  "machine ar \<longleftrightarrow> rnd ar = binary64 \<and> accurate_power (pwr ar)"

text \<open>Binary arithmetic on numpy scalars: \<open>nan\<close> is absorbing.\<close>

fun np_arith :: "(real \<Rightarrow> real) \<Rightarrow> (real \<Rightarrow> real \<Rightarrow> real) \<Rightarrow> npfloat \<Rightarrow> npfloat \<Rightarrow> npfloat" where
  "np_arith rd f (Val a) (Val b) = Val (rd (f a b))"
| "np_arith rd f NaN b = NaN"
| "np_arith rd f (Val a) NaN = NaN"

definition np_add :: "(real \<Rightarrow> real) \<Rightarrow> npfloat \<Rightarrow> npfloat \<Rightarrow> npfloat" where
  "np_add rd = np_arith rd (\<lambda>a b. a + b)"

definition np_sub :: "(real \<Rightarrow> real) \<Rightarrow> npfloat \<Rightarrow> npfloat \<Rightarrow> npfloat" where
  "np_sub rd = np_arith rd (\<lambda>a b. a - b)"

definition np_mul :: "(real \<Rightarrow> real) \<Rightarrow> npfloat \<Rightarrow> npfloat \<Rightarrow> npfloat" where
  "np_mul rd = np_arith rd (\<lambda>a b. a * b)"

text \<open>
  The array that numpy builds from a tuple of scores: 64-bit integers when every score is
  a Python int, doubles otherwise (each int converted to the nearest double), and an empty
  array of doubles from the empty tuple.
\<close>

fun ints_of :: "pynum list \<Rightarrow> 64 word list option" where
  "ints_of [] = Some []"
| "ints_of (PyInt w # xs) = map_option ((#) w) (ints_of xs)"
| "ints_of (PyFloat x # xs) = None"

fun as_double :: "(real \<Rightarrow> real) \<Rightarrow> pynum \<Rightarrow> real" where
  "as_double rd (PyInt w) = rd (real_of_int (sint w))"
| "as_double rd (PyFloat x) = x"

definition np_asarray :: "(real \<Rightarrow> real) \<Rightarrow> pynum list \<Rightarrow> ndarray" where
  "np_asarray rd xs =
     (if xs = [] then Float64 []
      else case ints_of xs of
             Some ws \<Rightarrow> Int64 ws
           | None \<Rightarrow> Float64 (map (as_double rd) xs))"

text \<open>
  \<open>np.sum\<close> and \<open>np.prod\<close>: a left-to-right accumulation from 0 and from 1. On 64-bit
  integers every step wraps around; on doubles every step is rounded. (On arrays of eight
  doubles or more numpy adds in blocks. No result below depends on it: the results on
  doubles are about two or three scores, about whole numbers whose sums are exact in any
  order, or about the product alone.)
\<close>

definition sum_int64 :: "64 word list \<Rightarrow> 64 word" where
  "sum_int64 ws = foldl (\<lambda>acc w. acc + w) 0 ws"

definition prod_int64 :: "64 word list \<Rightarrow> 64 word" where
  "prod_int64 ws = foldl (\<lambda>acc w. acc * w) 1 ws"

definition sum_float64 :: "(real \<Rightarrow> real) \<Rightarrow> real list \<Rightarrow> real" where
  "sum_float64 rd xs = foldl (\<lambda>acc x. rd (acc + x)) 0 xs"

definition prod_float64 :: "(real \<Rightarrow> real) \<Rightarrow> real list \<Rightarrow> real" where
  "prod_float64 rd xs = foldl (\<lambda>acc x. rd (acc * x)) 1 xs"

fun np_sum :: "(real \<Rightarrow> real) \<Rightarrow> ndarray \<Rightarrow> npscalar" where
  "np_sum rd (Int64 ws) = NpInt (sum_int64 ws)"
| "np_sum rd (Float64 xs) = NpFloat (sum_float64 rd xs)"

fun np_prod :: "(real \<Rightarrow> real) \<Rightarrow> ndarray \<Rightarrow> npscalar" where
  "np_prod rd (Int64 ws) = NpInt (prod_int64 ws)"
| "np_prod rd (Float64 xs) = NpFloat (prod_float64 rd xs)"

text \<open>
  A numpy scalar as an operand of a float operation: a 64-bit integer is converted to the
  nearest double.
\<close>

fun to_float64 :: "(real \<Rightarrow> real) \<Rightarrow> npscalar \<Rightarrow> real" where
  "to_float64 rd (NpInt w) = rd (real_of_int (sint w))"
| "to_float64 rd (NpFloat x) = x"

text \<open>Python's \<open>a / b\<close> on ints: true division, raising on a zero divisor.\<close>

definition py_truediv :: "(real \<Rightarrow> real) \<Rightarrow> nat \<Rightarrow> nat \<Rightarrow> error + real" where
  "py_truediv rd a b = (if b = 0 then Inl ZeroDivisionError else Inr (rd (real a / real b)))"

text \<open>
  \<open>x ** y\<close> on a numpy scalar with a float exponent (C \<open>pow\<close>): a positive base gives the
  power as the C library computes it; a zero base gives 0 for a positive exponent and 1
  for exponent 0; a negative base gives a number only for an integral exponent and \<open>nan\<close>
  (with a RuntimeWarning, no exception) otherwise. The exponent of \<open>gmean\<close> is \<open>1/n\<close> with
  \<open>n \<ge> 1\<close>, so a negative exponent on a zero base (infinity in C) does not occur; it is
  left as \<open>nan\<close>.
\<close>

definition np_power :: "arith \<Rightarrow> real \<Rightarrow> real \<Rightarrow> npfloat" where
  "np_power ar x y =
     (if 0 < x then Val (pwr ar x y)
      else if x = 0 then (if 0 < y then Val 0 else if y = 0 then Val 1 else NaN)
      else if y = of_int \<lfloor>y\<rfloor> then Val (rnd ar (x powi \<lfloor>y\<rfloor>))
      else NaN)"

section \<open>The functions of the notebook\<close>

text \<open>
  \<open>def amean(xs): n = len(xs); return np.sum(xs) / n\<close>.
  On the empty tuple \<open>np.sum\<close> is \<open>0.0\<close> and \<open>0.0 / 0\<close> is \<open>nan\<close> (a warning, no exception).
\<close>

definition amean :: "arith \<Rightarrow> pynum list \<Rightarrow> npfloat" where
  "amean ar xs =
     (let n = length xs;
          s = np_sum (rnd ar) (np_asarray (rnd ar) xs)
      in if n = 0 then NaN else Val (rnd ar (to_float64 (rnd ar) s / real n)))"

text \<open>
  \<open>def gmean(xs): n = len(xs); return np.prod(xs) ** (1/n)\<close>.
  \<open>1/n\<close> is a division of Python ints and raises \<open>ZeroDivisionError\<close> when \<open>n = 0\<close>.
\<close>

definition gmean :: "arith \<Rightarrow> pynum list \<Rightarrow> error + npfloat" where
  "gmean ar xs =
     (let n = length xs;
          p = np_prod (rnd ar) (np_asarray (rnd ar) xs)
      in case py_truediv (rnd ar) 1 n of
           Inl e \<Rightarrow> Inl e
         | Inr y \<Rightarrow> Inr (np_power ar (to_float64 (rnd ar) p) y))"

text \<open>
  \<open>def mean_plus_gmean(*xs, k=1): return amean(xs) + k * (gmean(xs) - 4)\<close>.
  The neutral point 4 is a literal of the body; the only named parameter is \<open>k\<close>,
  whose default is 1.
\<close>

definition default_k :: real where
  "default_k = 1"

definition mean_plus_gmean :: "arith \<Rightarrow> pynum list \<Rightarrow> real \<Rightarrow> error + npfloat" where
  "mean_plus_gmean ar xs k =
     (let a = amean ar xs in
      case gmean ar xs of
        Inl e \<Rightarrow> Inl e
      | Inr g \<Rightarrow> Inr (np_add (rnd ar) a (np_mul (rnd ar) (Val k) (np_sub (rnd ar) g (Val 4)))))"

text \<open>
  The confidence interval of the first notebook:
  \<open>def compute_ci(data): n = len(data); m = np.mean(data); s = np.std(data);
  sampling_dist = norm(m, s / np.sqrt(n)); ci90 = sampling_dist.ppf([0.05, 0.95]);
  return ci90\<close>. The data are doubles.
  \<open>np.mean\<close> is the sum over the count. \<open>np.std\<close> is the population standard deviation,
  computed as numpy does: the mean, the deviations from it, their squares, the mean of the
  squares, its square root, each step rounded. Both give \<open>nan\<close> on empty data, with a
  warning and no exception.
  Both add the elements of a float array with \<open>np.add.reduce\<close>, which adds from the left
  when there are fewer than eight elements, as \<open>sum_float64\<close> does, and in blocks of eight
  and in pairs when there are more. The summation is the parameter \<open>sm\<close>.
\<close>

definition np_mean :: "(real \<Rightarrow> real) \<Rightarrow> (real list \<Rightarrow> real) \<Rightarrow> real list \<Rightarrow> npfloat" where
  "np_mean rd sm xs = (if xs = [] then NaN else Val (rd (sm xs / real (length xs))))"

definition np_std :: "(real \<Rightarrow> real) \<Rightarrow> (real list \<Rightarrow> real) \<Rightarrow> real list \<Rightarrow> npfloat" where
  "np_std rd sm xs =
     (case np_mean rd sm xs of
        NaN \<Rightarrow> NaN
      | Val m \<Rightarrow>
          let x = map (\<lambda>v. rd (v - m)) xs;
              x2 = map (\<lambda>d. rd (d * d)) x
          in Val (rd (sqrt (rd (sm x2 / real (length xs))))))"

text \<open>
  Division of numpy scalars. A zero divisor gives \<open>nan\<close> for \<open>0 / 0\<close> and for
  \<open>nan / 0\<close>; a nonzero number over zero (infinity in numpy) does not occur in
  \<open>compute_ci\<close>, where the divisor \<open>sqrt n\<close> is zero only for empty data, whose standard
  deviation is \<open>nan\<close>.
\<close>

fun np_divide :: "(real \<Rightarrow> real) \<Rightarrow> npfloat \<Rightarrow> npfloat \<Rightarrow> npfloat" where
  "np_divide rd (Val a) (Val b) = (if b = 0 then NaN else Val (rd (a / b)))"
| "np_divide rd NaN b = NaN"
| "np_divide rd (Val a) NaN = NaN"

text \<open>
  \<open>norm(loc, scale).ppf(q)\<close> of scipy: the quantile \<open>ndtri(q) * scale + loc\<close> when the
  scale is positive and \<open>0 < q < 1\<close>, and \<open>nan\<close> when the location or the scale is
  \<open>nan\<close> or the scale is not positive (scipy's argument check fills such entries with
  \<open>nan\<close> and raises nothing). The standard normal quantile function \<open>ndtri\<close> of
  \<open>scipy.special\<close> is a parameter. Only \<open>q = 0.05\<close> and \<open>q = 0.95\<close> are asked for.
\<close>

definition norm_ppf :: "(real \<Rightarrow> real) \<Rightarrow> (real \<Rightarrow> real) \<Rightarrow> npfloat \<Rightarrow> npfloat \<Rightarrow> real \<Rightarrow> npfloat" where
  "norm_ppf rd ndtri loc scale q =
     (case loc of
        NaN \<Rightarrow> NaN
      | Val l \<Rightarrow>
          (case scale of
             NaN \<Rightarrow> NaN
           | Val s \<Rightarrow> if 0 < s \<and> 0 < q \<and> q < 1 then Val (rd (rd (ndtri q * s) + l)) else NaN))"

definition compute_ci ::
  "(real \<Rightarrow> real) \<Rightarrow> (real list \<Rightarrow> real) \<Rightarrow> (real \<Rightarrow> real) \<Rightarrow> real list \<Rightarrow> npfloat \<times> npfloat" where
  "compute_ci rd sm ndtri data =
     (let n = length data;
          m = np_mean rd sm data;
          s = np_std rd sm data;
          scale = np_divide rd s (Val (rd (sqrt (real n))))
      in (norm_ppf rd ndtri m scale (rd (5 / 100)), norm_ppf rd ndtri m scale (rd (95 / 100))))"

text \<open>
  The two values of scipy's \<open>ndtri\<close> that the notebook asks for, as the doubles they are:
  \<open>ndtri(0.05) = -1.6448536269514729\<close> and \<open>ndtri(0.95) = 1.6448536269514722\<close>. They
  are not opposite: they differ by three units in the last place.
\<close>

definition ndtri_scipy :: "real \<Rightarrow> real" where
  "ndtri_scipy q =
     (if q < 1 / 2 then - (3703881090708831 / 2 ^ 51) else 7407762181417659 / 2 ^ 52)"

text \<open>
  The quantile function of the standard normal distribution itself is symmetric:
  its values at 0.05 and at 0.95 are opposite numbers, \<open>-1.6448536269514722\<close> and
  \<open>1.6448536269514722\<close> to sixteen decimals. This stand-in has these two values.
\<close>

definition ndtri_symmetric :: "real \<Rightarrow> real" where
  "ndtri_symmetric q =
     (if q < 1 / 2 then - (16448536269514722 / 10 ^ 16) else 16448536269514722 / 10 ^ 16)"

text \<open>
  The doubles of the model have no largest and no smallest member. Data of size at most
  \<open>2^400\<close>, fewer than \<open>2^53\<close> of them, keep the sums and the squares of \<open>compute_ci\<close>
  below the largest double.
\<close>

definition moderate_data :: "real list \<Rightarrow> bool" where
  "moderate_data data \<longleftrightarrow> length data < 2 ^ 53 \<and> list_all (\<lambda>v. \<bar>v\<bar> \<le> 2 ^ 400) data"

section \<open>The contract of the specification\<close>

text \<open>
  The specification's combiner, in its own words: \<open>combine(scores, k, c) = A + k * (G - c)\<close>
  with \<open>A = sum(scores) / count(scores)\<close> and
  \<open>G = (product(scores))^(1/count(scores))\<close>. It is compared with the code below.
\<close>

definition combine_spec :: "real list \<Rightarrow> real \<Rightarrow> real \<Rightarrow> real" where
  "combine_spec scores k c =
     (let A = sum_list scores / real (length scores);
          G = prod_list scores powr (1 / real (length scores))
      in A + k * (G - c))"

text \<open>
  The scores of a tuple of Python ints as the integers and the real numbers they stand
  for, to state what the exact sum and the exact product of the scores are.
\<close>

definition int_scores :: "64 word list \<Rightarrow> int list" where
  "int_scores ws = map sint ws"

definition real_scores :: "64 word list \<Rightarrow> real list" where
  "real_scores ws = map (\<lambda>w. real_of_int (sint w)) ws"

definition fits_int64 :: "int \<Rightarrow> bool" where
  "fits_int64 i \<longleftrightarrow> - (2 ^ 63) \<le> i \<and> i < 2 ^ 63"

text \<open>
  The doubles of the model have no largest and no smallest member. A weight that is 0 or
  lies between \<open>2^-900\<close> and \<open>2^900\<close> in absolute value keeps every step of
  \<open>mean_plus_gmean\<close> on 64-bit integer scores inside the range of the normal doubles,
  where the model and the machine agree.
\<close>

definition moderate_weight :: "real \<Rightarrow> bool" where
  "moderate_weight k \<longleftrightarrow> k = 0 \<or> (1 / 2 ^ 900 \<le> \<bar>k\<bar> \<and> \<bar>k\<bar> \<le> 2 ^ 900)"

text \<open>Tuples of floats and tuples of ints.\<close>

abbreviation floats :: "real list \<Rightarrow> pynum list" where
  "floats xs \<equiv> map PyFloat xs"

abbreviation ints :: "64 word list \<Rightarrow> pynum list" where
  "ints ws \<equiv> map PyInt ws"

section \<open>The two kinds of array\<close>

lemma ints_of_floats: "ints_of (floats xs) = (if xs = [] then Some [] else None)"
  by (cases xs) simp_all

lemma np_asarray_floats: "np_asarray rd (floats xs) = Float64 xs"
  by (cases xs) (simp_all add: np_asarray_def comp_def)

lemma ints_of_ints: "ints_of (ints ws) = Some ws"
  by (induction ws) simp_all

lemma np_asarray_ints: "ws \<noteq> [] \<Longrightarrow> np_asarray rd (ints ws) = Int64 ws"
  by (simp add: np_asarray_def ints_of_ints)

lemma amean_floats:
  "amean ar (floats xs) =
     (if xs = [] then NaN else Val (rnd ar (sum_float64 (rnd ar) xs / real (length xs))))"
  by (simp add: amean_def np_asarray_floats)

lemma gmean_floats:
  "gmean ar (floats xs) =
     (case py_truediv (rnd ar) 1 (length xs) of
        Inl e \<Rightarrow> Inl e
      | Inr y \<Rightarrow> Inr (np_power ar (prod_float64 (rnd ar) xs) y))"
  by (simp add: gmean_def np_asarray_floats split: sum.splits)

lemma amean_ints:
  "amean ar (ints ws) =
     (if ws = [] then NaN
      else Val (rnd ar (rnd ar (real_of_int (sint (sum_int64 ws))) / real (length ws))))"
  by (simp add: amean_def np_asarray_ints)

lemma gmean_ints:
  "ws \<noteq> [] \<Longrightarrow>
   gmean ar (ints ws) =
     Inr (np_power ar (rnd ar (real_of_int (sint (prod_int64 ws)))) (rnd ar (1 / real (length ws))))"
  by (simp add: gmean_def np_asarray_ints py_truediv_def)

lemma foldl_add_word: "foldl (\<lambda>acc w. acc + w) a ws = a + sum_list (ws :: 64 word list)"
  by (induction ws arbitrary: a) (simp_all add: add.assoc)

lemma foldl_mul_word: "foldl (\<lambda>acc w. acc * w) a ws = a * prod_list (ws :: 64 word list)"
  by (induction ws arbitrary: a) (simp_all add: mult.assoc)

lemma sum_int64_sum_list: "sum_int64 ws = sum_list ws"
  by (simp add: sum_int64_def foldl_add_word)

lemma prod_int64_prod_list: "prod_int64 ws = prod_list ws"
  by (simp add: prod_int64_def foldl_mul_word)

lemma word_sum_list_sint: "(word_of_int (sum_list (map sint ws)) :: 64 word) = sum_list ws"
  by (induction ws) simp_all

lemma word_prod_list_sint: "(word_of_int (prod_list (map sint ws)) :: 64 word) = prod_list ws"
  by (induction ws) simp_all

lemma sint_word_of_int_fits:
  assumes "fits_int64 i"
  shows "sint (word_of_int i :: 64 word) = i"
  using assms by (simp add: fits_int64_def sint_sbintrunc' signed_take_bit_int_eq_self)

text \<open>Modular arithmetic forgets nothing when the exact result fits.\<close>

lemma sum_int64_exact:
  assumes "fits_int64 (sum_list (int_scores ws))"
  shows "sint (sum_int64 ws) = sum_list (int_scores ws)"
  using sint_word_of_int_fits [OF assms]
  by (simp add: int_scores_def word_sum_list_sint sum_int64_sum_list)

lemma prod_int64_exact:
  assumes "fits_int64 (prod_list (int_scores ws))"
  shows "sint (prod_int64 ws) = prod_list (int_scores ws)"
  using sint_word_of_int_fits [OF assms]
  by (simp add: int_scores_def word_prod_list_sint prod_int64_prod_list)

lemma real_scores_sum: "sum_list (real_scores ws) = real_of_int (sum_list (int_scores ws))"
  by (induction ws) (simp_all add: real_scores_def int_scores_def)

lemma real_scores_prod: "prod_list (real_scores ws) = real_of_int (prod_list (int_scores ws))"
  by (induction ws) (simp_all add: real_scores_def int_scores_def)

lemma length_real_scores: "length (real_scores ws) = length ws"
  by (simp add: real_scores_def)

section \<open>Exact arithmetic: the functions as formulas\<close>

lemma rnd_exact: "rnd exact = ideal" and pwr_exact: "pwr exact = (\<lambda>x y. x powr y)"
  by (simp_all add: exact_def)

lemma rnd_float64: "rnd float64 = binary64"
  and pwr_float64: "pwr float64 = (\<lambda>x y. binary64 (x powr y))"
  by (simp_all add: float64_def)

lemma foldl_add_ideal: "foldl (\<lambda>acc x. ideal (acc + x)) a xs = a + sum_list xs"
  by (induction xs arbitrary: a) (simp_all add: ideal_def)

lemma foldl_mul_ideal: "foldl (\<lambda>acc x. ideal (acc * x)) a xs = a * prod_list xs"
  by (induction xs arbitrary: a) (simp_all add: ideal_def)

lemma sum_float64_ideal: "sum_float64 ideal xs = sum_list xs"
  by (simp add: sum_float64_def foldl_add_ideal)

lemma prod_float64_ideal: "prod_float64 ideal xs = prod_list xs"
  by (simp add: prod_float64_def foldl_mul_ideal)

lemma amean_ideal:
  "xs \<noteq> [] \<Longrightarrow> amean exact (floats xs) = Val (sum_list xs / real (length xs))"
  by (simp add: amean_floats rnd_exact sum_float64_ideal ideal_def)

lemma gmean_ideal:
  "xs \<noteq> [] \<Longrightarrow>
   gmean exact (floats xs) = Inr (np_power exact (prod_list xs) (1 / real (length xs)))"
  by (simp add: gmean_floats rnd_exact py_truediv_def prod_float64_ideal ideal_def)

lemma np_power_ideal_nonneg:
  assumes "0 \<le> x" and "0 < y"
  shows "np_power exact x y = Val (x powr y)"
  using assms by (simp add: np_power_def pwr_exact)

lemma gmean_ideal_nonneg:
  assumes "xs \<noteq> []" and "0 \<le> prod_list xs"
  shows "gmean exact (floats xs) = Inr (Val (prod_list xs powr (1 / real (length xs))))"
  using assms by (simp add: gmean_ideal np_power_ideal_nonneg)

lemma mean_plus_gmean_ideal_nonneg:
  assumes "xs \<noteq> []" and "0 \<le> prod_list xs"
  shows "mean_plus_gmean exact (floats xs) k =
         Inr (Val (sum_list xs / real (length xs)
                   + k * (prod_list xs powr (1 / real (length xs)) - 4)))"
  using assms
  by (simp add: mean_plus_gmean_def amean_ideal gmean_ideal_nonneg
      np_add_def np_mul_def np_sub_def rnd_exact ideal_def)

lemma mean_plus_gmean_ideal_spec:
  assumes "xs \<noteq> []" and "0 \<le> prod_list xs"
  shows "mean_plus_gmean exact (floats xs) k = Inr (Val (combine_spec xs k 4))"
  using assms by (simp add: mean_plus_gmean_ideal_nonneg combine_spec_def)

lemma amean_ideal_all:
  "amean exact (floats xs) =
     (if length xs = 0 then NaN else Val (sum_list xs / real (length xs)))"
  by (simp add: amean_floats rnd_exact sum_float64_ideal ideal_def)

lemma gmean_ideal_all:
  "gmean exact (floats xs) =
     (if length xs = 0 then Inl ZeroDivisionError
      else Inr (np_power exact (prod_list xs) (1 / real (length xs))))"
  by (simp add: gmean_floats rnd_exact py_truediv_def prod_float64_ideal ideal_def)



lemma gmean_empty: "gmean ar [] = Inl ZeroDivisionError"
  by (simp add: gmean_def py_truediv_def)

lemma gmean_nonempty_returns:
  assumes "xs \<noteq> []"
  shows "\<exists>v. gmean ar xs = Inr v"
  using assms by (simp add: gmean_def py_truediv_def Let_def)


lemma mean_plus_gmean_nonempty_returns:
  assumes "xs \<noteq> []"
  shows "\<exists>v. mean_plus_gmean ar xs k = Inr v"
  using gmean_nonempty_returns [OF assms, of ar] by (auto simp add: mean_plus_gmean_def)

lemma powr_half_of_square:
  assumes "0 \<le> (a::real)"
  shows "(a * a) powr (1 / 2) = a"
  using assms by (simp add: powr_half_sqrt)

lemma replicate_powr:
  assumes "0 < n" and "0 < (v::real)"
  shows "(v ^ n) powr (1 / real n) = v"
proof -
  have "(v ^ n) powr (1 / real n) = (v powr real n) powr (1 / real n)"
    using assms by (simp add: powr_realpow)
  also have "\<dots> = v powr (real n * (1 / real n))" by (simp only: powr_powr)
  also have "\<dots> = v" using assms by simp
  finally show ?thesis .
qed

lemma mean_plus_gmean_ideal_replicate:
  assumes "0 < n" and "0 < v"
  shows "mean_plus_gmean exact (floats (replicate n v)) k = Inr (Val (v + k * (v - 4)))"
proof -
  have ne: "replicate n v \<noteq> []" using assms by simp
  have p: "prod_list (replicate n v) = v ^ n" by (induction n) simp_all
  have s: "sum_list (replicate n v) = real n * v" by (simp add: sum_list_replicate)
  have "0 \<le> prod_list (replicate n v)" using assms by (simp add: p)
  then show ?thesis
    using assms
    by (simp add: mean_plus_gmean_ideal_nonneg [OF ne] p s replicate_powr del: map_replicate)
qed

section \<open>The inequality of the means\<close>

text \<open>
  The product of positive scores is at most the \<open>n\<close>-th power of their mean: each ratio
  \<open>x / a\<close> is at most \<open>exp (x / a - 1)\<close>, and at \<open>a\<close> the mean the exponents add up to 0.
\<close>

lemma ratio_le_exp:
  fixes x a :: real
  assumes "0 < a"
  shows "x / a \<le> exp (x / a - 1)"
  using exp_ge_add_one_self [of "x / a - 1"] by simp

lemma prod_list_pos:
  fixes xs :: "real list"
  assumes "\<forall>x\<in>set xs. 0 < x"
  shows "0 < prod_list xs"
  using assms by (induction xs) simp_all

lemma sum_list_pos_ne:
  fixes xs :: "real list"
  assumes "xs \<noteq> []" and "\<forall>x\<in>set xs. 0 < x"
  shows "0 < sum_list xs"
  using assms
proof (induction xs)
  case Nil
  then show ?case by simp
next
  case (Cons x xs)
  have "0 \<le> sum_list xs" using Cons.prems(2) by (intro sum_list_nonneg) auto
  moreover have "0 < x" using Cons.prems(2) by simp
  ultimately show ?case by simp
qed

lemma prod_scaled_le_exp:
  fixes xs :: "real list" and a :: real
  assumes "0 < a" and "\<forall>x\<in>set xs. 0 < x"
  shows "prod_list xs / a ^ length xs \<le> exp (sum_list xs / a - real (length xs))"
  using assms(2)
proof (induction xs)
  case Nil
  then show ?case by simp
next
  case (Cons x xs)
  have x: "0 < x" and rest: "\<forall>y\<in>set xs. 0 < y" using Cons.prems by simp_all
  have ih: "prod_list xs / a ^ length xs \<le> exp (sum_list xs / a - real (length xs))"
    using Cons.IH rest by simp
  have h0: "0 \<le> x / a" using x assms(1) by simp
  have t0: "0 \<le> prod_list xs / a ^ length xs"
    using prod_list_pos [OF rest] assms(1) by simp
  have "prod_list (x # xs) / a ^ length (x # xs) = (x / a) * (prod_list xs / a ^ length xs)"
    by simp
  also have "\<dots> \<le> exp (x / a - 1) * exp (sum_list xs / a - real (length xs))"
    using ratio_le_exp [OF assms(1), of x] ih h0 t0 by (intro mult_mono) simp_all
  also have "\<dots> = exp (sum_list (x # xs) / a - real (length (x # xs)))"
    by (simp add: exp_add [symmetric] add_divide_distrib)
  finally show ?case .
qed

lemma prod_le_mean_power:
  fixes xs :: "real list"
  assumes "xs \<noteq> []" and "\<forall>x\<in>set xs. 0 < x"
  shows "prod_list xs \<le> (sum_list xs / real (length xs)) ^ length xs"
proof -
  define a where "a = sum_list xs / real (length xs)"
  have n: "0 < real (length xs)" using assms(1) by simp
  have a: "0 < a" unfolding a_def using sum_list_pos_ne [OF assms] n by simp
  have "sum_list xs / a = real (length xs)"
    unfolding a_def using sum_list_pos_ne [OF assms] n by simp
  then have "prod_list xs / a ^ length xs \<le> 1"
    using prod_scaled_le_exp [OF a assms(2)] by simp
  then show ?thesis
    using a by (simp add: a_def [symmetric] divide_le_eq)
qed

lemma gm_le_am:
  fixes xs :: "real list"
  assumes "xs \<noteq> []" and "\<forall>x\<in>set xs. 0 < x"
  shows "prod_list xs powr (1 / real (length xs)) \<le> sum_list xs / real (length xs)"
proof -
  define n where "n = length xs"
  define a where "a = sum_list xs / real n"
  have n: "0 < n" unfolding n_def using assms(1) by simp
  have a: "0 < a" unfolding a_def n_def using sum_list_pos_ne [OF assms] assms(1) by simp
  have "prod_list xs \<le> a ^ n"
    unfolding a_def n_def by (rule prod_le_mean_power [OF assms])
  moreover have "0 \<le> prod_list xs" using prod_list_pos [OF assms(2)] by simp
  ultimately have "prod_list xs powr (1 / real n) \<le> (a ^ n) powr (1 / real n)"
    by (intro powr_mono2) simp_all
  also have "\<dots> = a" using n a by (rule replicate_powr)
  finally show ?thesis by (simp add: a_def n_def)
qed

section \<open>Rounding to binary64\<close>

text \<open>
  How \<open>binary64\<close> is computed and how far it moves a number: a number scaled into
  \<open>[2^52, 2^53)\<close> is rounded to the nearest integer; the relative error is at most
  \<open>2^-53\<close>; integers below \<open>2^53\<close> in absolute value, and their quotients by powers of
  two, are left as they are.
\<close>

lemma rne_near:
  assumes "\<bar>x - of_int m\<bar> < 1 / 2"
  shows "rne x = m"
proof -
  have lo: "of_int m - 1 / 2 < x" and hi: "x < of_int m + 1 / 2"
    using assms by linarith+
  show ?thesis
  proof (cases "of_int m \<le> x")
    case True
    then have f: "\<lfloor>x\<rfloor> = m" using hi by (intro floor_unique) simp_all
    then show ?thesis using hi by (simp add: rne_def Let_def)
  next
    case False
    then have f: "\<lfloor>x\<rfloor> = m - 1" using lo by (intro floor_unique) simp_all
    have "1 / 2 < x - of_int (m - 1)" using lo by simp
    then show ?thesis using f by (simp add: rne_def Let_def)
  qed
qed

lemma rne_of_int: "rne (of_int m) = m"
  by (rule rne_near) simp

lemma rne_err: "\<bar>of_int (rne x) - x\<bar> \<le> 1 / 2"
proof -
  have a: "of_int \<lfloor>x\<rfloor> \<le> x" and b: "x < of_int \<lfloor>x\<rfloor> + 1" by linarith+
  show ?thesis
    using a b by (auto simp add: rne_def Let_def abs_le_iff)
qed

lemma binary64_in_binade:
  assumes "2 powr of_int k \<le> \<bar>x\<bar>" and "\<bar>x\<bar> < 2 powr (of_int k + 1)"
  shows "binary64 x = of_int (rne (x / 2 powr of_int (k - 52))) * 2 powr of_int (k - 52)"
proof -
  have "0 < (2::real) powr of_int k" by simp
  then have pos: "0 < \<bar>x\<bar>" using assms(1) by linarith
  then have nz: "x \<noteq> 0" by auto
  have "\<lfloor>log 2 \<bar>x\<bar>\<rfloor> = k"
    using assms pos by (simp add: floor_log_eq_powr_iff)
  then show ?thesis using nz by (simp add: binary64_def Let_def)
qed

lemma binary64_round:
  assumes "2 powr of_int k \<le> \<bar>x\<bar>" and "\<bar>x\<bar> < 2 powr (of_int k + 1)"
    and "\<bar>x / 2 powr of_int (k - 52) - of_int m\<bar> < 1 / 2"
  shows "binary64 x = of_int m * 2 powr of_int (k - 52)"
  using binary64_in_binade [OF assms(1,2)] rne_near [OF assms(3)] by simp

lemma binary64_err:
  assumes "x \<noteq> 0"
  shows "\<bar>binary64 x - x\<bar> \<le> \<bar>x\<bar> / 2 ^ 53"
proof -
  define k where "k = \<lfloor>log 2 \<bar>x\<bar>\<rfloor>"
  define u where "u = (2::real) powr of_int (k - 52)"
  have pos: "0 < \<bar>x\<bar>" using assms by simp
  have u: "0 < u" by (simp add: u_def)
  have "2 powr of_int k \<le> \<bar>x\<bar>"
    using pos floor_log_eq_powr_iff [of "\<bar>x\<bar>" 2 k] by (simp add: k_def)
  moreover have "(2::real) powr of_int k = u * 2 ^ 52"
    by (simp add: u_def powr_diff)
  ultimately have ux: "u * 2 ^ 52 \<le> \<bar>x\<bar>" by simp
  have b: "binary64 x = of_int (rne (x / u)) * u"
    using assms by (simp add: binary64_def Let_def k_def u_def)
  have "binary64 x - x = (of_int (rne (x / u)) - x / u) * u"
    using u by (simp add: b field_simps)
  then have "\<bar>binary64 x - x\<bar> = \<bar>of_int (rne (x / u)) - x / u\<bar> * u"
    using u by (simp add: abs_mult)
  also have "\<dots> \<le> (1 / 2) * u"
    using rne_err [of "x / u"] u by (intro mult_right_mono) simp_all
  also have "\<dots> \<le> \<bar>x\<bar> / 2 ^ 53"
    using ux by simp
  finally show ?thesis .
qed

lemma binary64_zero: "binary64 0 = 0"
  by (simp add: binary64_def)

lemma binary64_close:
  assumes "\<bar>x\<bar> \<le> 64"
  shows "\<bar>binary64 x - x\<bar> \<le> 1 / 2 ^ 47"
proof (cases "x = 0")
  case True
  then show ?thesis by (simp add: binary64_zero)
next
  case False
  have "\<bar>binary64 x - x\<bar> \<le> \<bar>x\<bar> / 2 ^ 53" using False by (rule binary64_err)
  also have "\<dots> \<le> 64 / 2 ^ 53" using assms by (simp add: divide_right_mono)
  also have "\<dots> = 1 / 2 ^ 47" by simp
  finally show ?thesis .
qed

lemma binary64_exact:
  assumes "m \<noteq> 0" and "\<bar>m\<bar> < 2 ^ 53"
  shows "binary64 (of_int m * 2 powr of_int j) = of_int m * 2 powr of_int j"
proof -
  define i where "i = \<lfloor>log 2 \<bar>of_int m :: real\<bar>\<rfloor>"
  have mpos: "0 < \<bar>of_int m :: real\<bar>" using assms(1) by simp
  have bin: "2 powr of_int i \<le> \<bar>of_int m :: real\<bar>" "\<bar>of_int m :: real\<bar> < 2 powr (of_int i + 1)"
    using mpos floor_log_eq_powr_iff [of "\<bar>of_int m :: real\<bar>" 2 i] by (simp_all add: i_def)
  have m1: "1 \<le> \<bar>of_int m :: real\<bar>" using assms(1) by (simp flip: of_int_abs)
  have i0: "0 \<le> i" unfolding i_def using m1 by simp
  have "\<bar>of_int m :: real\<bar> < 2 ^ 53" using assms(2) by (simp flip: of_int_abs)
  then have "(2::real) powr of_int i < 2 ^ 53" using bin(1) by linarith
  also have "(2::real) ^ 53 = 2 powr real 53"
    by (simp only: powr_realpow zero_less_numeral)
  finally have "(2::real) powr of_int i < 2 powr real 53" .
  then have "real_of_int i < real 53" by (rule powr_less_cancel) simp
  then have i52: "i \<le> 52" by simp
  define x :: real where "x = of_int m * 2 powr of_int j"
  have ax: "\<bar>x\<bar> = \<bar>of_int m :: real\<bar> * 2 powr of_int j" by (simp add: x_def abs_mult)
  have b1: "2 powr of_int (i + j) \<le> \<bar>x\<bar>"
    using bin(1) by (simp add: ax powr_add)
  have b2: "\<bar>x\<bar> < 2 powr (of_int (i + j) + 1)"
  proof -
    have "\<bar>x\<bar> < 2 powr (of_int i + 1) * 2 powr of_int j"
      using bin(2) by (simp add: ax)
    also have "\<dots> = 2 powr (of_int (i + j) + 1)"
      by (simp add: powr_add)
    finally show ?thesis .
  qed
  define s where "s = nat (52 - i)"
  have s: "of_int (52 - i) = real s" using i52 by (simp add: s_def)
  have "x / 2 powr of_int (i + j - 52) = of_int m * 2 powr of_int (52 - i)"
    by (simp add: x_def powr_diff powr_add field_simps)
  also have "\<dots> = of_int m * 2 ^ s"
    by (simp only: s powr_realpow zero_less_numeral)
  also have "\<dots> = of_int (m * 2 ^ s)" by simp
  finally have q: "x / 2 powr of_int (i + j - 52) = of_int (m * 2 ^ s)" .
  have "binary64 x = of_int (m * 2 ^ s) * 2 powr of_int (i + j - 52)"
    using binary64_in_binade [OF b1 b2] by (simp only: q rne_of_int)
  also have "\<dots> = x * (2 powr of_int (52 - i) * 2 powr of_int (i + j - 52)) / 2 powr of_int j"
    by (simp add: x_def s [symmetric] powr_realpow [symmetric])
  also have "2 powr of_int (52 - i) * 2 powr of_int (i + j - 52) = (2::real) powr of_int j"
    by (simp add: powr_add [symmetric])
  finally show ?thesis by (simp add: x_def)
qed

lemma binary64_int:
  assumes "\<bar>m\<bar> < 2 ^ 53"
  shows "binary64 (of_int m) = of_int m"
proof (cases "m = 0")
  case True
  then show ?thesis by (simp add: binary64_zero)
next
  case False
  then show ?thesis using binary64_exact [OF False assms, of 0] by simp
qed

lemma binary64_round_pow:
  fixes x :: real and p :: nat
  assumes "2 ^ 52 \<le> x * 2 ^ p" and "x * 2 ^ p < 2 ^ 53"
    and "\<bar>x * 2 ^ p - of_int m\<bar> < 1 / 2"
  shows "binary64 x = of_int m / 2 ^ p"
proof -
  define k :: int where "k = 52 - int p"
  have pk: "(2::real) powr of_int k = 2 ^ 52 / 2 ^ p"
    by (simp add: k_def powr_diff powr_realpow)
  have pk1: "(2::real) powr (of_int k + 1) = 2 ^ 53 / 2 ^ p"
    by (simp add: k_def powr_diff powr_add powr_realpow)
  have pu: "(2::real) powr of_int (k - 52) = 1 / 2 ^ p"
    by (simp add: k_def powr_minus_divide powr_realpow)
  have xpos: "0 < x"
  proof (rule ccontr)
    assume "\<not> 0 < x"
    then have "x * 2 ^ p \<le> 0" by (simp add: mult_le_0_iff)
    then show False using assms(1) by simp
  qed
  have "binary64 x = of_int m * 2 powr of_int (k - 52)"
  proof (rule binary64_round)
    show "2 powr of_int k \<le> \<bar>x\<bar>"
      using assms(1) xpos by (simp add: pk pos_divide_le_eq)
    show "\<bar>x\<bar> < 2 powr (of_int k + 1)"
      using assms(2) xpos by (simp add: pk1 pos_less_divide_eq)
    show "\<bar>x / 2 powr of_int (k - 52) - of_int m\<bar> < 1 / 2"
      unfolding pu using assms(3) by simp
  qed
  then show ?thesis unfolding pu by simp
qed

subsection \<open>Rounding preserves order and sign\<close>

lemma rne_bounds: "\<lfloor>x\<rfloor> \<le> rne x" "rne x \<le> \<lfloor>x\<rfloor> + 1"
  by (simp_all add: rne_def Let_def)

lemma rne_mono:
  assumes "x \<le> y"
  shows "rne x \<le> rne y"
proof (cases "\<lfloor>x\<rfloor> = \<lfloor>y\<rfloor>")
  case True
  then show ?thesis using assms by (auto simp add: rne_def Let_def)
next
  case False
  have "\<lfloor>x\<rfloor> \<le> \<lfloor>y\<rfloor>" using assms by (rule floor_mono)
  then have "\<lfloor>x\<rfloor> + 1 \<le> \<lfloor>y\<rfloor>" using False by simp
  then show ?thesis using rne_bounds(2) [of x] rne_bounds(1) [of y] by linarith
qed

lemma rne_minus: "rne (- x) = - rne x"
proof (cases "x - of_int \<lfloor>x\<rfloor> = 1 / 2")
  case True
  define f where "f = \<lfloor>x\<rfloor>"
  have x: "x = of_int f + 1 / 2" using True by (simp add: f_def)
  have fl: "\<lfloor>- x\<rfloor> = - f - 1"
    unfolding x by (rule floor_unique) simp_all
  have d: "- x - of_int (- f - 1) = 1 / 2" unfolding x by simp
  have r1: "rne x = (if even f then f else f + 1)"
    using True by (simp add: rne_def Let_def f_def)
  have r2: "rne (- x) = (if even (- f - 1) then - f - 1 else - f)"
    using fl d by (simp add: rne_def Let_def)
  show ?thesis unfolding r1 r2 by simp
next
  case False
  define m where "m = \<lfloor>x + 1 / 2\<rfloor>"
  have a: "of_int m \<le> x + 1 / 2" and b: "x + 1 / 2 < of_int m + 1"
    unfolding m_def by linarith+
  have ne: "x + 1 / 2 \<noteq> of_int m"
  proof
    assume e: "x + 1 / 2 = of_int m"
    then have "x = of_int (m - 1) + 1 / 2" by simp
    moreover from this have "\<lfloor>x\<rfloor> = m - 1" by (intro floor_unique) simp_all
    ultimately show False using False by simp
  qed
  have near: "\<bar>x - of_int m\<bar> < 1 / 2" using a b ne by linarith
  have e: "- x - of_int (- m) = - (x - of_int m)" by simp
  have near': "\<bar>- x - of_int (- m)\<bar> < 1 / 2"
    unfolding e abs_minus by (rule near)
  show ?thesis using rne_near [OF near] rne_near [OF near'] by simp
qed

lemma binary64_minus: "binary64 (- x) = - binary64 x"
  by (simp add: binary64_def Let_def rne_minus)

lemma binary64_pos_range:
  assumes "0 < x"
  defines "k \<equiv> \<lfloor>log 2 x\<rfloor>"
  shows "2 powr of_int k \<le> binary64 x" and "binary64 x \<le> 2 powr (of_int k + 1)"
proof -
  define u :: real where "u = 2 powr of_int (k - 52)"
  have u: "0 < u" by (simp add: u_def)
  have bin: "2 powr of_int k \<le> x" "x < 2 powr (of_int k + 1)"
    using assms(1) floor_log_eq_powr_iff [of x 2 k] by (simp_all add: k_def)
  have pk: "(2::real) powr of_int k = 2 ^ 52 * u"
    by (simp add: u_def powr_diff)
  have pk1: "(2::real) powr (of_int k + 1) = 2 ^ 53 * u"
    by (simp add: u_def powr_diff powr_add)
  have b: "binary64 x = of_int (rne (x / u)) * u"
    using assms(1) by (simp add: binary64_def Let_def k_def u_def)
  have "of_int (2 ^ 52) \<le> x / u" using bin(1) u by (simp add: pk pos_le_divide_eq)
  then have "rne (of_int (2 ^ 52)) \<le> rne (x / u)" by (rule rne_mono)
  then have lo: "(2 ^ 52 :: real) \<le> of_int (rne (x / u))"
    unfolding rne_of_int by (metis of_int_le_iff of_int_numeral of_int_power)
  have "x / u \<le> of_int (2 ^ 53)" using bin(2) u by (simp add: pk1 pos_divide_le_eq)
  then have "rne (x / u) \<le> rne (of_int (2 ^ 53))" by (rule rne_mono)
  then have hi: "of_int (rne (x / u)) \<le> (2 ^ 53 :: real)"
    unfolding rne_of_int by (metis of_int_le_iff of_int_numeral of_int_power)
  show "2 powr of_int k \<le> binary64 x"
    unfolding pk b using lo u by (intro mult_right_mono) simp_all
  show "binary64 x \<le> 2 powr (of_int k + 1)"
    unfolding pk1 b using hi u by (intro mult_right_mono) simp_all
qed

lemma binary64_pos:
  assumes "0 < x"
  shows "0 < binary64 x"
proof -
  have "0 < (2::real) powr of_int \<lfloor>log 2 x\<rfloor>" by simp
  then show ?thesis using binary64_pos_range(1) [OF assms] by linarith
qed

lemma binary64_mono_pos:
  assumes "0 < x" and "x \<le> y"
  shows "binary64 x \<le> binary64 y"
proof -
  define kx where "kx = \<lfloor>log 2 x\<rfloor>"
  define ky where "ky = \<lfloor>log 2 y\<rfloor>"
  have y: "0 < y" using assms by linarith
  have "log 2 x \<le> log 2 y" using assms y by simp
  then have kk: "kx \<le> ky" unfolding kx_def ky_def by (rule floor_mono)
  show ?thesis
  proof (cases "kx = ky")
    case True
    define u :: real where "u = 2 powr of_int (kx - 52)"
    have u: "0 < u" by (simp add: u_def)
    have bx: "binary64 x = of_int (rne (x / u)) * u"
      using assms(1) by (simp add: binary64_def Let_def kx_def u_def)
    have by': "binary64 y = of_int (rne (y / u)) * u"
      using y True by (simp add: binary64_def Let_def ky_def kx_def u_def)
    have "x / u \<le> y / u" using assms(2) u by (simp add: divide_right_mono)
    then have "rne (x / u) \<le> rne (y / u)" by (rule rne_mono)
    then show ?thesis unfolding bx by' using u by (intro mult_right_mono) simp_all
  next
    case False
    then have "kx + 1 \<le> ky" using kk by simp
    then have "real_of_int kx + 1 \<le> real_of_int ky" by linarith
    then have "(2::real) powr (of_int kx + 1) \<le> 2 powr of_int ky"
      by (rule powr_mono) simp
    moreover have "binary64 x \<le> 2 powr (of_int kx + 1)"
      unfolding kx_def by (rule binary64_pos_range(2) [OF assms(1)])
    moreover have "2 powr of_int ky \<le> binary64 y"
      unfolding ky_def by (rule binary64_pos_range(1) [OF y])
    ultimately show ?thesis by linarith
  qed
qed

lemma binary64_mono:
  assumes "x \<le> y"
  shows "binary64 x \<le> binary64 y"
proof -
  consider "0 < x" | "x = 0" | "x < 0" "0 \<le> y" | "x < 0" "y < 0" by linarith
  then show ?thesis
  proof cases
    case 1
    then show ?thesis using assms by (rule binary64_mono_pos)
  next
    case 2
    show ?thesis
    proof (cases "y = 0")
      case True
      then show ?thesis using 2 by simp
    next
      case False
      then have "0 < y" using assms 2 by simp
      then show ?thesis using binary64_pos [of y] 2 by (simp add: binary64_zero)
    qed
  next
    case 3
    have "0 < binary64 (- x)" using 3(1) by (intro binary64_pos) simp
    then have nx: "binary64 x < 0" using binary64_minus [of x] by simp
    have "0 \<le> binary64 y"
    proof (cases "y = 0")
      case True
      then show ?thesis by (simp add: binary64_zero)
    next
      case False
      then have "0 < y" using 3(2) by simp
      then show ?thesis using binary64_pos [of y] by simp
    qed
    then show ?thesis using nx by linarith
  next
    case 4
    have "binary64 (- y) \<le> binary64 (- x)"
      using 4 assms by (intro binary64_mono_pos) simp_all
    then show ?thesis by (simp add: binary64_minus)
  qed
qed

subsection \<open>Numbers that are doubles\<close>

lemma binary64_numeral:
  assumes "(numeral n :: int) < 2 ^ 53"
  shows "binary64 (numeral n) = numeral n"
  using binary64_int [of "numeral n"] assms by simp

lemma binary64_one: "binary64 1 = 1"
  using binary64_int [of 1] by simp

lemma binary64_half: "binary64 (1 / 2) = 1 / 2"
  using binary64_exact [of 1 "- 1"] by (simp add: powr_minus_divide)

lemma binary64_third: "binary64 (1 / 3) = 6004799503160661 / 2 ^ 54"
proof -
  have p: "(2::real) powr of_int (- 2 - 52) = 1 / 2 ^ 54"
    by (simp add: powr_minus_divide)
  have "binary64 (1 / 3) = of_int 6004799503160661 * 2 powr of_int (- 2 - 52)"
  proof (rule binary64_round)
    show "2 powr of_int (- 2) \<le> \<bar>1 / 3 :: real\<bar>" by (simp add: powr_minus_divide)
    show "\<bar>1 / 3 :: real\<bar> < 2 powr (of_int (- 2) + 1)" by (simp add: powr_minus_divide)
    have "(1 / 3 :: real) / 2 powr of_int (- 2 - 52) - of_int 6004799503160661 = 1 / 3"
      unfolding p by simp
    then have "\<bar>(1 / 3 :: real) / 2 powr of_int (- 2 - 52) - of_int 6004799503160661\<bar>
                 = \<bar>1 / 3 :: real\<bar>"
      by (simp only:)
    also have "\<dots> < 1 / 2" by simp
    finally show "\<bar>1 / 3 / 2 powr of_int (- 2 - 52) - of_int 6004799503160661\<bar>
                 < (1 / 2 :: real)" .
  qed
  then show ?thesis by (simp only: p)
qed

lemma binary64_neg_one: "binary64 (- 1) = - 1"
  using binary64_int [of "- 1"] by simp

lemma binary64_tenth: "binary64 (1 / 10) = 7205759403792794 / 2 ^ 56"
  using binary64_round_pow [where p = 56 and x = "1 / 10" and m = 7205759403792794] by simp

lemma binary64_seven_three: "binary64 (73 / 10) = 8219069319951155 / 2 ^ 50"
  using binary64_round_pow [where p = 50 and x = "73 / 10" and m = 8219069319951155] by simp

subsection \<open>Ties and large numbers\<close>

lemma rne_tie: "rne (of_int m + 1 / 2) = (if even m then m else m + 1)"
proof -
  have f: "\<lfloor>of_int m + (1 / 2 :: real)\<rfloor> = m" by linarith
  show ?thesis by (simp add: rne_def Let_def f)
qed

lemma binary64_tie_pow:
  fixes x :: real and p :: nat
  assumes "2 ^ 52 \<le> x * 2 ^ p" and "x * 2 ^ p < 2 ^ 53"
    and "x * 2 ^ p = of_int m + 1 / 2"
  shows "binary64 x = of_int (if even m then m else m + 1) / 2 ^ p"
proof -
  define k :: int where "k = 52 - int p"
  have pk: "(2::real) powr of_int k = 2 ^ 52 / 2 ^ p"
    by (simp add: k_def powr_diff powr_realpow)
  have pk1: "(2::real) powr (of_int k + 1) = 2 ^ 53 / 2 ^ p"
    by (simp add: k_def powr_diff powr_add powr_realpow)
  have pu: "(2::real) powr of_int (k - 52) = 1 / 2 ^ p"
    by (simp add: k_def powr_minus_divide powr_realpow)
  have xpos: "0 < x"
  proof (rule ccontr)
    assume "\<not> 0 < x"
    then have "x * 2 ^ p \<le> 0" by (simp add: mult_le_0_iff)
    then show False using assms(1) by simp
  qed
  have "binary64 x = of_int (rne (x / 2 powr of_int (k - 52))) * 2 powr of_int (k - 52)"
  proof (rule binary64_in_binade)
    show "2 powr of_int k \<le> \<bar>x\<bar>"
      using assms(1) xpos by (simp add: pk pos_divide_le_eq)
    show "\<bar>x\<bar> < 2 powr (of_int k + 1)"
      using assms(2) xpos by (simp add: pk1 pos_less_divide_eq)
  qed
  moreover have "x / 2 powr of_int (k - 52) = of_int m + 1 / 2"
    unfolding pu using assms(3) by simp
  ultimately have "binary64 x = of_int (rne (of_int m + 1 / 2)) * 2 powr of_int (k - 52)"
    by (simp only:)
  then show ?thesis unfolding pu rne_tie by simp
qed


section \<open>Laws under every rounding that preserves order\<close>

text \<open>
  The facts of this section hold for every rounding operator that preserves order, keeps
  positive numbers positive and keeps 0; so they hold in exact arithmetic and in binary64.
\<close>

lemma monotone_rounding_ideal: "monotone_rounding ideal"
  by (simp add: monotone_rounding_def ideal_def)

lemma monotone_rounding_binary64: "monotone_rounding binary64"
  by (simp add: monotone_rounding_def binary64_mono binary64_pos binary64_zero)

lemma monotone_roundingD:
  assumes "monotone_rounding rd"
  shows "a \<le> b \<Longrightarrow> rd a \<le> rd b" and "0 < a \<Longrightarrow> 0 < rd a" and "rd 0 = 0"
  using assms by (simp_all add: monotone_rounding_def)

lemma rounding_nonneg:
  assumes "monotone_rounding rd" and "0 \<le> x"
  shows "0 \<le> rd x"
  using monotone_roundingD(1) [OF assms] monotone_roundingD(3) [OF assms(1)] by simp

lemma rounding_nonpos:
  assumes "monotone_rounding rd" and "x \<le> 0"
  shows "rd x \<le> 0"
  using monotone_roundingD(1) [OF assms] monotone_roundingD(3) [OF assms(1)] by simp

lemma rounding_neg:
  assumes "monotone_rounding rd" and "x < 0" and "rd (- x) = - rd x"
  shows "rd x < 0"
  using monotone_roundingD(2) [OF assms(1), of "- x"] assms(2,3) by simp

lemma foldl_mul_sign:
  assumes rd: "monotone_rounding rd"
    and "(0 < a \<longrightarrow> 0 \<le> c) \<and> (a < 0 \<longrightarrow> c \<le> 0) \<and> (a = 0 \<longrightarrow> c = 0)"
  shows "(0 < a * prod_list xs \<longrightarrow> 0 \<le> foldl (\<lambda>acc x. rd (acc * x)) c xs)
       \<and> (a * prod_list xs < 0 \<longrightarrow> foldl (\<lambda>acc x. rd (acc * x)) c xs \<le> 0)
       \<and> (a * prod_list xs = 0 \<longrightarrow> foldl (\<lambda>acc x. rd (acc * x)) c xs = 0)"
  using assms(2)
proof (induction xs arbitrary: a c)
  case Nil
  then show ?case by simp
next
  case (Cons x xs)
  have z: "rd 0 = 0" using rd by (simp add: monotone_rounding_def)
  have step: "(0 < a * x \<longrightarrow> 0 \<le> rd (c * x)) \<and> (a * x < 0 \<longrightarrow> rd (c * x) \<le> 0)
              \<and> (a * x = 0 \<longrightarrow> rd (c * x) = 0)"
  proof (intro conjI impI)
    assume "0 < a * x"
    then have "0 \<le> c * x"
      using Cons.prems by (auto simp add: zero_less_mult_iff zero_le_mult_iff)
    then show "0 \<le> rd (c * x)" by (rule rounding_nonneg [OF rd])
  next
    assume "a * x < 0"
    then have "c * x \<le> 0"
      using Cons.prems by (auto simp add: mult_less_0_iff mult_le_0_iff)
    then show "rd (c * x) \<le> 0" by (rule rounding_nonpos [OF rd])
  next
    assume "a * x = 0"
    then have "c * x = 0" using Cons.prems by auto
    then have "rd (c * x) = rd 0" by (rule arg_cong)
    then show "rd (c * x) = 0" by (simp only: z)
  qed
  show ?case using Cons.IH [OF step] by (simp add: mult.assoc)
qed

lemma prod_float64_sign:
  assumes "monotone_rounding rd"
  shows "0 \<le> prod_list xs \<Longrightarrow> 0 \<le> prod_float64 rd xs"
    and "0 \<in> set xs \<Longrightarrow> prod_float64 rd xs = 0"
proof -
  have s: "(0 < 1 * prod_list xs \<longrightarrow> 0 \<le> prod_float64 rd xs)
       \<and> (1 * prod_list xs < 0 \<longrightarrow> prod_float64 rd xs \<le> 0)
       \<and> (1 * prod_list xs = 0 \<longrightarrow> prod_float64 rd xs = 0)"
    unfolding prod_float64_def by (rule foldl_mul_sign [OF assms]) simp
  show "0 \<le> prod_list xs \<Longrightarrow> 0 \<le> prod_float64 rd xs"
    using s by (cases "prod_list xs = 0") auto
  show "0 \<in> set xs \<Longrightarrow> prod_float64 rd xs = 0"
    using s by (simp add: prod_list_zero_iff)
qed

lemma exponent_pos:
  assumes "monotone_rounding rd" and "xs \<noteq> []"
  shows "py_truediv rd 1 (length xs) = Inr (rd (1 / real (length xs)))"
    and "0 < rd (1 / real (length xs))"
proof -
  show "py_truediv rd 1 (length xs) = Inr (rd (1 / real (length xs)))"
    using assms(2) by (simp add: py_truediv_def)
  have "0 < 1 / real (length xs)" using assms(2) by simp
  then show "0 < rd (1 / real (length xs))"
    using assms(1) by (simp add: monotone_rounding_def)
qed

lemma exponent_fraction:
  assumes "rd = ideal \<or> rd = binary64" and "2 \<le> n"
  shows "rd (1 / real n) \<noteq> of_int \<lfloor>rd (1 / real n)\<rfloor>"
proof -
  have rd: "monotone_rounding rd"
    using assms(1) monotone_rounding_ideal monotone_rounding_binary64 by auto
  have half: "rd (1 / 2) = 1 / 2"
    using assms(1) by (auto simp add: ideal_def binary64_half)
  have "0 < 1 / real n" using assms(2) by simp
  then have lo: "0 < rd (1 / real n)" by (rule monotone_roundingD(2) [OF rd])
  have "1 / real n \<le> 1 / 2" using assms(2) by (simp add: field_simps)
  then have "rd (1 / real n) \<le> rd (1 / 2)" by (rule monotone_roundingD(1) [OF rd])
  then have hi: "rd (1 / real n) < 1" using half by simp
  have "\<lfloor>rd (1 / real n)\<rfloor> = 0" using lo hi by linarith
  then show ?thesis using lo by simp
qed

text \<open>
  The product that \<open>gmean\<close> raises to the power \<open>1/n\<close>, as the double that \<open>**\<close> sees, and
  the three cases of its sign.
\<close>

lemma gmean_nonempty:
  assumes "xs \<noteq> []"
  shows "gmean ar xs =
           Inr (np_power ar (to_float64 (rnd ar) (np_prod (rnd ar) (np_asarray (rnd ar) xs)))
                  (rnd ar (1 / real (length xs))))"
  using assms by (simp add: gmean_def py_truediv_def Let_def)

lemma gmean_pos_base:
  assumes "xs \<noteq> []" and "0 < to_float64 (rnd ar) (np_prod (rnd ar) (np_asarray (rnd ar) xs))"
  shows "gmean ar xs =
           Inr (Val (pwr ar (to_float64 (rnd ar) (np_prod (rnd ar) (np_asarray (rnd ar) xs)))
                       (rnd ar (1 / real (length xs)))))"
  using assms(2) by (simp add: gmean_nonempty [OF assms(1)] np_power_def)

lemma gmean_zero_base:
  assumes "monotone_rounding (rnd ar)" and "xs \<noteq> []"
    and "to_float64 (rnd ar) (np_prod (rnd ar) (np_asarray (rnd ar) xs)) = 0"
  shows "gmean ar xs = Inr (Val 0)"
  using assms(3) exponent_pos(2) [OF assms(1,2)]
  by (simp add: gmean_nonempty [OF assms(2)] np_power_def)

lemma gmean_neg_base:
  assumes "rnd ar = ideal \<or> rnd ar = binary64" and "2 \<le> length xs"
    and "to_float64 (rnd ar) (np_prod (rnd ar) (np_asarray (rnd ar) xs)) < 0"
  shows "gmean ar xs = Inr NaN"
proof -
  have ne: "xs \<noteq> []" using assms(2) by auto
  show ?thesis
    using assms(3) exponent_fraction [OF assms(1,2)]
    by (simp add: gmean_nonempty [OF ne] np_power_def)
qed

lemma amean_nonempty:
  assumes "xs \<noteq> []"
  shows "\<exists>a. amean ar xs = Val a"
  using assms by (simp add: amean_def Let_def)

lemma mean_plus_gmean_neg_prod:
  assumes "rnd ar = ideal \<or> rnd ar = binary64" and "2 \<le> length xs"
    and "to_float64 (rnd ar) (np_prod (rnd ar) (np_asarray (rnd ar) xs)) < 0"
  shows "mean_plus_gmean ar xs k = Inr NaN"
proof -
  have "np_arith (rnd ar) (\<lambda>a b. a + b) (amean ar xs) NaN = NaN"
    by (cases "amean ar xs") simp_all
  then show ?thesis
    using gmean_neg_base [OF assms]
    by (simp add: mean_plus_gmean_def np_add_def np_mul_def np_sub_def Let_def)
qed

lemma mean_plus_gmean_number:
  assumes "amean ar xs = Val a" and "gmean ar xs = Inr (Val g)"
  shows "mean_plus_gmean ar xs k = Inr (Val (rnd ar (a + rnd ar (k * rnd ar (g - 4)))))"
  using assms by (simp add: mean_plus_gmean_def np_add_def np_mul_def np_sub_def)

section \<open>The notebook calls in binary64\<close>

subsection \<open>The cube root of 64 in binary64\<close>

text \<open>
  \<open>1/3\<close> is not a double: the exponent that \<open>gmean\<close> passes on for three scores is
  \<open>6004799503160661 / 2^54\<close>, just below a third. So \<open>64 ** (1/3)\<close> is
  \<open>4 / 2^(1/2^53)\<close>, which lies between \<open>4 - 6/2^53\<close> and \<open>4 - 2/2^53\<close> and is rounded
  to the double below 4, \<open>4 - 1/2^51\<close> (printed as \<open>3.9999999999999996\<close>).
\<close>

lemma ln2_bounds: "3 / 5 \<le> ln (2::real)" "ln (2::real) \<le> 1"
proof -
  have "exp (3 / 5 :: real) \<le> 1 + 3 / 5 + (3 / 5)\<^sup>2" by (rule exp_bound) simp_all
  also have "\<dots> \<le> 2" by (simp add: power2_eq_square)
  finally have "exp (3 / 5 :: real) \<le> 2" .
  then show "3 / 5 \<le> ln (2::real)" by (subst ln_ge_iff) simp_all
  have "(2::real) \<le> exp 1" using exp_ge_add_one_self [of "1::real"] by simp
  then have "ln (2::real) \<le> ln (exp 1)" by (subst ln_le_cancel_iff) simp_all
  then show "ln (2::real) \<le> 1" by simp
qed

lemma two_powr_small:
  fixes d :: real
  assumes "0 \<le> d" and "d \<le> 1"
  shows "1 + 3 / 5 * d \<le> 2 powr d" and "2 powr d \<le> 1 + d + d\<^sup>2"
proof -
  have e: "(2::real) powr d = exp (d * ln 2)" by (simp add: powr_def)
  have "d * (3 / 5) \<le> d * ln 2"
    using ln2_bounds(1) assms(1) by (intro mult_left_mono) simp_all
  then have "1 + 3 / 5 * d \<le> 1 + d * ln 2" by simp
  also have "\<dots> \<le> exp (d * ln 2)" by (rule exp_ge_add_one_self)
  finally show "1 + 3 / 5 * d \<le> 2 powr d" by (simp only: e)
  have "d * ln 2 \<le> d * 1" using ln2_bounds(2) assms(1) by (intro mult_left_mono) simp_all
  then have "exp (d * ln 2) \<le> exp d" by simp
  also have "\<dots> \<le> 1 + d + d\<^sup>2" using assms by (rule exp_bound)
  finally show "2 powr d \<le> 1 + d + d\<^sup>2" by (simp only: e)
qed

lemma pow64_third:
  "(64::real) powr (6004799503160661 / 2 ^ 54) = 4 / 2 powr (1 / 2 ^ 53)"
proof -
  have "(64::real) = 2 powr 6" by simp
  then have "(64::real) powr (6004799503160661 / 2 ^ 54)
             = (2 powr 6) powr (6004799503160661 / 2 ^ 54)"
    by (simp only:)
  also have "\<dots> = 2 powr (6 * (6004799503160661 / 2 ^ 54))"
    by (simp only: powr_powr)
  also have "6 * (6004799503160661 / 2 ^ 54) = (2::real) - 1 / 2 ^ 53" by simp
  also have "(2::real) powr (2 - 1 / 2 ^ 53) = 2 powr 2 / 2 powr (1 / 2 ^ 53)"
    by (rule powr_diff)
  finally show ?thesis by simp
qed

lemma below_four_bounds:
  defines "g \<equiv> 4 / (2::real) powr (1 / 2 ^ 53)"
  shows "4 - 6 / 2 ^ 53 < g" and "g < 4 - 2 / 2 ^ 53"
proof -
  define d :: real where "d = 1 / 2 ^ 53"
  define T :: real where "T = 2 powr d"
  have d: "0 \<le> d" "d \<le> 1" by (simp_all add: d_def)
  have lo: "1 + 3 / 5 * d \<le> T" and hi: "T \<le> 1 + d + d\<^sup>2"
    unfolding T_def using two_powr_small [OF d] by simp_all
  have Tpos: "0 < T" by (simp add: T_def)
  have g: "g = 4 / T" by (simp add: g_def T_def d_def)
  have "(4 - 6 * d) * T \<le> (4 - 6 * d) * (1 + d + d\<^sup>2)"
    using hi by (intro mult_left_mono) (simp_all add: d_def)
  also have "\<dots> < 4" by (simp add: d_def power2_eq_square)
  finally have "(4 - 6 * d) * T < 4" .
  then have "4 - 6 * d < 4 / T" using Tpos by (simp add: pos_less_divide_eq)
  then show "4 - 6 / 2 ^ 53 < g" by (simp add: g d_def)
  have "4 < (4 - 2 * d) * (1 + 3 / 5 * d)" by (simp add: d_def)
  also have "\<dots> \<le> (4 - 2 * d) * T"
    using lo by (intro mult_left_mono) (simp_all add: d_def)
  finally have "4 < (4 - 2 * d) * T" .
  then have "4 / T < 4 - 2 * d" using Tpos by (simp add: pos_divide_less_eq)
  then show "g < 4 - 2 / 2 ^ 53" by (simp add: g d_def)
qed

lemma binary64_below_four:
  "binary64 (4 / 2 powr (1 / 2 ^ 53)) = 4 - 1 / 2 ^ 51"
proof -
  define g :: real where "g = 4 / 2 powr (1 / 2 ^ 53)"
  have lo: "4 - 6 / 2 ^ 53 < g" and hi: "g < 4 - 2 / 2 ^ 53"
    unfolding g_def by (rule below_four_bounds)+
  have p: "(2::real) powr of_int (1 - 52) = 1 / 2 ^ 51"
    by (simp add: powr_minus_divide)
  have gpos: "0 < g" using lo by simp
  have "binary64 g = of_int 9007199254740991 * 2 powr of_int (1 - 52)"
  proof (rule binary64_round)
    show "2 powr of_int 1 \<le> \<bar>g\<bar>" using lo by simp
    show "\<bar>g\<bar> < 2 powr (of_int 1 + 1)" using hi gpos by simp
    have "g / 2 powr of_int (1 - 52) - of_int 9007199254740991 = g * 2 ^ 51 - 9007199254740991"
      unfolding p by simp
    moreover have "\<bar>g * 2 ^ 51 - 9007199254740991\<bar> < 1 / 2"
    proof -
      have a: "9007199254740991 - 1 / 2 < g * 2 ^ 51" using lo by simp
      have b: "g * 2 ^ 51 < 9007199254740991 + 1 / 2" using hi by simp
      show ?thesis using a b by linarith
    qed
    ultimately show "\<bar>g / 2 powr of_int (1 - 52) - of_int 9007199254740991\<bar> < (1 / 2 :: real)"
      by (simp only:)
  qed
  also have "\<dots> = 4 - 1 / 2 ^ 51" unfolding p by simp
  finally show ?thesis by (simp only: g_def)
qed

lemma binary64_ulp_facts:
  "binary64 (- (1 / 2 ^ 51)) = - (1 / 2 ^ 51)"
  "binary64 (4 - 1 / 2 ^ 51) = 4 - 1 / 2 ^ 51"
proof -
  have p: "(2::real) powr of_int (- 51) = 1 / 2 ^ 51"
    by (simp add: powr_minus_divide)
  have "binary64 (of_int (- 1) * 2 powr of_int (- 51)) = of_int (- 1) * 2 powr of_int (- 51)"
    by (rule binary64_exact) simp_all
  moreover have "of_int (- 1) * 2 powr of_int (- 51) = - (1 / 2 ^ 51 :: real)"
    unfolding p by simp
  ultimately show "binary64 (- (1 / 2 ^ 51)) = - (1 / 2 ^ 51)"
    by (simp only:)
  have "binary64 (of_int 9007199254740991 * 2 powr of_int (- 51))
        = of_int 9007199254740991 * 2 powr of_int (- 51)"
    by (rule binary64_exact) simp_all
  moreover have "of_int 9007199254740991 * 2 powr of_int (- 51) = (4 - 1 / 2 ^ 51 :: real)"
    unfolding p by simp
  ultimately show "binary64 (4 - 1 / 2 ^ 51) = 4 - 1 / 2 ^ 51"
    by (simp only:)
qed

lemma gmean_binary64_444: "gmean float64 (floats [4, 4, 4]) = Inr (Val (4 - 1 / 2 ^ 51))"
proof -
  have "py_truediv binary64 1 (length [4, 4, 4 :: real]) = Inr (binary64 (1 / 3))"
    by (simp add: py_truediv_def)
  then have y: "py_truediv binary64 1 (length [4, 4, 4 :: real])
                = Inr (6004799503160661 / 2 ^ 54)"
    by (simp only: binary64_third)
  have p: "prod_float64 binary64 [4, 4, 4] = 64"
    by (simp add: prod_float64_def binary64_numeral)
  have "np_power float64 64 (6004799503160661 / 2 ^ 54)
        = Val (binary64 (64 powr (6004799503160661 / 2 ^ 54)))"
    by (simp add: np_power_def pwr_float64)
  then have "np_power float64 64 (6004799503160661 / 2 ^ 54) = Val (4 - 1 / 2 ^ 51)"
    by (simp only: pow64_third binary64_below_four)
  then show ?thesis
    by (simp only: gmean_floats rnd_float64 Let_def y p sum.case)
qed

lemma amean_binary64_444: "amean float64 (floats [4, 4, 4]) = Val 4"
  by (simp add: amean_floats rnd_float64 sum_float64_def binary64_numeral del: list.map)

lemma mean_plus_gmean_binary64_444:
  "mean_plus_gmean float64 (floats [4, 4, 4]) 1 = Inr (Val (4 - 1 / 2 ^ 51))"
proof -
  have e1: "4 - 1 / 2 ^ 51 - 4 = - (1 / 2 ^ 51 :: real)" by simp
  have e2: "1 * - (1 / 2 ^ 51) = - (1 / 2 ^ 51 :: real)" by simp
  have e3: "4 + - (1 / 2 ^ 51) = (4 - 1 / 2 ^ 51 :: real)" by simp
  have s: "np_sub binary64 (Val (4 - 1 / 2 ^ 51)) (Val 4) = Val (- (1 / 2 ^ 51))"
    by (simp only: np_sub_def np_arith.simps e1 binary64_ulp_facts)
  have m: "np_mul binary64 (Val 1) (Val (- (1 / 2 ^ 51))) = Val (- (1 / 2 ^ 51))"
    by (simp only: np_mul_def np_arith.simps e2 binary64_ulp_facts)
  have a: "np_add binary64 (Val 4) (Val (- (1 / 2 ^ 51))) = Val (4 - 1 / 2 ^ 51)"
    by (simp only: np_add_def np_arith.simps e3 binary64_ulp_facts)
  show ?thesis
    by (simp only: mean_plus_gmean_def rnd_float64 Let_def amean_binary64_444 gmean_binary64_444
        sum.case s m a)
qed

subsection \<open>The cube root of 125 in binary64\<close>

text \<open>
  In the same way \<open>125 ** (1/3)\<close> is \<open>5 / 5^(1/2^54)\<close>, about \<open>5 - 8.05/2^54\<close>: just
  below the midpoint \<open>5 - 8/2^54\<close> of the doubles \<open>5 - 1/2^50\<close> and 5, so that it is
  rounded down. This needs \<open>ln 5 > 1.6\<close>, which follows from \<open>exp 8 < 5^5\<close>.
\<close>

lemma exp_double_le:
  fixes x b c :: real
  assumes "exp x \<le> b" and "b * b \<le> c"
  shows "exp (2 * x) \<le> c"
proof -
  have "exp (2 * x) = exp x * exp x" by (simp add: exp_add [symmetric])
  also have "\<dots> \<le> b * b"
  proof -
    have "0 \<le> exp x" by simp
    then have "0 \<le> b" using assms(1) by linarith
    then show ?thesis using assms(1) by (intro mult_mono) simp_all
  qed
  finally show ?thesis using assms(2) by simp
qed

lemma exp_8_le: "exp (8::real) \<le> 3074585947 / 1000000"
proof -
  have "exp (1 / 128 :: real) \<le> 1 + 1 / 128 + (1 / 128)\<^sup>2" by (rule exp_bound) simp_all
  then have b0: "exp (1 / 128 :: real) \<le> 1259841919 / 1250000000" by (simp add: power2_eq_square)
  have "exp (2 * (1 / 128) :: real) \<le> 1015809063 / 1000000000"
    by (rule exp_double_le [OF b0]) simp
  then have b1: "exp (1 / 64 :: real) \<le> 1015809063 / 1000000000" by simp
  have "exp (2 * (1 / 64) :: real) \<le> 412747221 / 400000000"
    by (rule exp_double_le [OF b1]) simp
  then have b2: "exp (1 / 32 :: real) \<le> 412747221 / 400000000" by simp
  have "exp (2 * (1 / 32) :: real) \<le> 5323758389 / 5000000000"
    by (rule exp_double_le [OF b2]) simp
  then have b3: "exp (1 / 16 :: real) \<le> 5323758389 / 5000000000" by simp
  have "exp (2 * (1 / 16) :: real) \<le> 5668480677 / 5000000000"
    by (rule exp_double_le [OF b3]) simp
  then have b4: "exp (1 / 8 :: real) \<le> 5668480677 / 5000000000" by simp
  have "exp (2 * (1 / 8) :: real) \<le> 514106771 / 400000000"
    by (rule exp_double_le [OF b4]) simp
  then have b5: "exp (1 / 4 :: real) \<le> 514106771 / 400000000" by simp
  have "exp (2 * (1 / 4) :: real) \<le> 66076443 / 40000000"
    by (rule exp_double_le [OF b5]) simp
  then have b6: "exp (1 / 2 :: real) \<le> 66076443 / 40000000" by simp
  have "exp (2 * (1 / 2) :: real) \<le> 13644050999 / 5000000000"
    by (rule exp_double_le [OF b6]) simp
  then have b7: "exp (1 :: real) \<le> 13644050999 / 5000000000" by simp
  have "exp (2 * (1) :: real) \<le> 37232025533 / 5000000000"
    by (rule exp_double_le [OF b7]) simp
  then have b8: "exp (2 :: real) \<le> 37232025533 / 5000000000" by simp
  have "exp (2 * (2) :: real) \<le> 138622372529 / 2500000000"
    by (rule exp_double_le [OF b8]) simp
  then have b9: "exp (4 :: real) \<le> 138622372529 / 2500000000" by simp
  have "exp (2 * (4) :: real) \<le> 3074585947 / 1000000"
    by (rule exp_double_le [OF b9]) simp
  then have b10: "exp (8 :: real) \<le> 3074585947 / 1000000" by simp
  show ?thesis by (rule b10)
qed

lemma ln5_bounds: "16001 / 10000 < ln (5::real)" "ln (5::real) \<le> 4"
proof -
  have "exp (5 / 10000 :: real) \<le> 1 + 5 / 10000 + (5 / 10000)\<^sup>2"
    by (rule exp_bound) simp_all
  then have small: "exp (5 / 10000 :: real) \<le> 100050025 / 10 ^ 8"
    by (simp add: power2_eq_square)
  have "exp (5 * (16001 / 10000) :: real) = exp 8 * exp (5 / 10000)"
    by (simp add: exp_add [symmetric])
  also have "\<dots> \<le> (3074585947 / 1000000) * (100050025 / 10 ^ 8)"
    using exp_8_le small by (intro mult_mono) simp_all
  also have "\<dots> < 5 ^ 5" by simp
  finally have p: "exp (16001 / 10000 :: real) ^ 5 < 5 ^ 5"
    by (simp add: exp_of_nat_mult [symmetric])
  have "exp (16001 / 10000 :: real) < 5"
    using p by (rule power_less_imp_less_base) simp
  then have "ln (exp (16001 / 10000 :: real)) < ln 5"
    by (subst ln_less_cancel_iff) simp_all
  then show "16001 / 10000 < ln (5::real)" by simp
  show "ln (5::real) \<le> 4" using ln_le_minus_one [of "5::real"] by simp
qed

lemma pow125_third:
  "(125::real) powr (6004799503160661 / 2 ^ 54) = 5 / 5 powr (1 / 2 ^ 54)"
proof -
  have "(125::real) = 5 powr 3" by simp
  then have "(125::real) powr (6004799503160661 / 2 ^ 54)
             = (5 powr 3) powr (6004799503160661 / 2 ^ 54)"
    by (simp only:)
  also have "\<dots> = 5 powr (3 * (6004799503160661 / 2 ^ 54))"
    by (simp only: powr_powr)
  also have "3 * (6004799503160661 / 2 ^ 54) = (1::real) - 1 / 2 ^ 54" by simp
  also have "(5::real) powr (1 - 1 / 2 ^ 54) = 5 powr 1 / 5 powr (1 / 2 ^ 54)"
    by (rule powr_diff)
  finally show ?thesis by simp
qed

lemma five_powr_small:
  fixes d :: real
  assumes "0 \<le> d" and "d \<le> 1 / 4"
  shows "1 + 16001 / 10000 * d \<le> 5 powr d" and "5 powr d \<le> 1 + 4 * d + (4 * d)\<^sup>2"
proof -
  have e: "(5::real) powr d = exp (d * ln 5)" by (simp add: powr_def)
  have "d * (16001 / 10000) \<le> d * ln 5"
    using ln5_bounds(1) assms(1) by (intro mult_left_mono) simp_all
  then have "1 + 16001 / 10000 * d \<le> 1 + d * ln 5" by simp
  also have "\<dots> \<le> exp (d * ln 5)" by (rule exp_ge_add_one_self)
  finally show "1 + 16001 / 10000 * d \<le> 5 powr d" by (simp only: e)
  have "d * ln 5 \<le> d * 4" using ln5_bounds(2) assms(1) by (intro mult_left_mono) simp_all
  then have "exp (d * ln 5) \<le> exp (4 * d)" by (simp add: mult.commute)
  also have "\<dots> \<le> 1 + 4 * d + (4 * d)\<^sup>2" using assms by (intro exp_bound) simp_all
  finally show "5 powr d \<le> 1 + 4 * d + (4 * d)\<^sup>2" by (simp only: e)
qed

lemma below_five_bounds:
  defines "g \<equiv> 5 / (5::real) powr (1 / 2 ^ 54)"
  shows "5 - 24 / 2 ^ 54 < g" and "g < 5 - 8 / 2 ^ 54"
proof -
  define d :: real where "d = 1 / 2 ^ 54"
  define T :: real where "T = 5 powr d"
  have d: "0 \<le> d" "d \<le> 1 / 4" by (simp_all add: d_def)
  have lo: "1 + 16001 / 10000 * d \<le> T" and hi: "T \<le> 1 + 4 * d + (4 * d)\<^sup>2"
    unfolding T_def using five_powr_small [OF d] by simp_all
  have Tpos: "0 < T" by (simp add: T_def)
  have g: "g = 5 / T" by (simp add: g_def T_def d_def)
  have "(5 - 24 * d) * T \<le> (5 - 24 * d) * (1 + 4 * d + (4 * d)\<^sup>2)"
    using hi by (intro mult_left_mono) (simp_all add: d_def)
  also have "\<dots> < 5" by (simp add: d_def power2_eq_square)
  finally have "(5 - 24 * d) * T < 5" .
  then have "5 - 24 * d < 5 / T" using Tpos by (simp add: pos_less_divide_eq)
  then show "5 - 24 / 2 ^ 54 < g" by (simp add: g d_def)
  have "5 < (5 - 8 * d) * (1 + 16001 / 10000 * d)" by (simp add: d_def)
  also have "\<dots> \<le> (5 - 8 * d) * T"
    using lo by (intro mult_left_mono) (simp_all add: d_def)
  finally have "5 < (5 - 8 * d) * T" .
  then have "5 / T < 5 - 8 * d" using Tpos by (simp add: pos_divide_less_eq)
  then show "g < 5 - 8 / 2 ^ 54" by (simp add: g d_def)
qed

lemma binary64_below_five:
  "binary64 (5 / 5 powr (1 / 2 ^ 54)) = 5 - 1 / 2 ^ 50"
proof -
  define g :: real where "g = 5 / 5 powr (1 / 2 ^ 54)"
  have lo: "5 - 24 / 2 ^ 54 < g" and hi: "g < 5 - 8 / 2 ^ 54"
    unfolding g_def by (rule below_five_bounds)+
  have p: "(2::real) powr of_int (2 - 52) = 1 / 2 ^ 50"
    by (simp add: powr_minus_divide)
  have gpos: "0 < g" using lo by simp
  have "binary64 g = of_int 5629499534213119 * 2 powr of_int (2 - 52)"
  proof (rule binary64_round)
    show "2 powr of_int 2 \<le> \<bar>g\<bar>" using lo by simp
    show "\<bar>g\<bar> < 2 powr (of_int 2 + 1)" using hi gpos by simp
    have "g / 2 powr of_int (2 - 52) - of_int 5629499534213119 = g * 2 ^ 50 - 5629499534213119"
      unfolding p by simp
    moreover have "\<bar>g * 2 ^ 50 - 5629499534213119\<bar> < 1 / 2"
    proof -
      have a: "5629499534213119 - 1 / 2 < g * 2 ^ 50" using lo by simp
      have b: "g * 2 ^ 50 < 5629499534213119 + 1 / 2" using hi by simp
      show ?thesis using a b by linarith
    qed
    ultimately show "\<bar>g / 2 powr of_int (2 - 52) - of_int 5629499534213119\<bar> < (1 / 2 :: real)"
      by (simp only:)
  qed
  also have "\<dots> = 5 - 1 / 2 ^ 50" unfolding p by simp
  finally show ?thesis by (simp only: g_def)
qed

lemma binary64_ulp_facts_five:
  "binary64 (1 - 1 / 2 ^ 50) = 1 - 1 / 2 ^ 50"
  "binary64 (6 - 1 / 2 ^ 50) = 6 - 1 / 2 ^ 50"
proof -
  have p: "(2::real) powr of_int (- 50) = 1 / 2 ^ 50"
    by (simp add: powr_minus_divide)
  have "binary64 (of_int 1125899906842623 * 2 powr of_int (- 50))
        = of_int 1125899906842623 * 2 powr of_int (- 50)"
    by (rule binary64_exact) simp_all
  moreover have "of_int 1125899906842623 * 2 powr of_int (- 50) = (1 - 1 / 2 ^ 50 :: real)"
    unfolding p by simp
  ultimately show "binary64 (1 - 1 / 2 ^ 50) = 1 - 1 / 2 ^ 50"
    by (simp only:)
  have "binary64 (of_int 6755399441055743 * 2 powr of_int (- 50))
        = of_int 6755399441055743 * 2 powr of_int (- 50)"
    by (rule binary64_exact) simp_all
  moreover have "of_int 6755399441055743 * 2 powr of_int (- 50) = (6 - 1 / 2 ^ 50 :: real)"
    unfolding p by simp
  ultimately show "binary64 (6 - 1 / 2 ^ 50) = 6 - 1 / 2 ^ 50"
    by (simp only:)
qed

lemma gmean_binary64_555: "gmean float64 (floats [5, 5, 5]) = Inr (Val (5 - 1 / 2 ^ 50))"
proof -
  have "py_truediv binary64 1 (length [5, 5, 5 :: real]) = Inr (binary64 (1 / 3))"
    by (simp add: py_truediv_def)
  then have y: "py_truediv binary64 1 (length [5, 5, 5 :: real])
                = Inr (6004799503160661 / 2 ^ 54)"
    by (simp only: binary64_third)
  have p: "prod_float64 binary64 [5, 5, 5] = 125"
    by (simp add: prod_float64_def binary64_numeral)
  have "np_power float64 125 (6004799503160661 / 2 ^ 54)
        = Val (binary64 (125 powr (6004799503160661 / 2 ^ 54)))"
    by (simp add: np_power_def pwr_float64)
  then have "np_power float64 125 (6004799503160661 / 2 ^ 54) = Val (5 - 1 / 2 ^ 50)"
    by (simp only: pow125_third binary64_below_five)
  then show ?thesis
    by (simp only: gmean_floats rnd_float64 Let_def y p sum.case)
qed

lemma amean_binary64_555: "amean float64 (floats [5, 5, 5]) = Val 5"
  by (simp add: amean_floats rnd_float64 sum_float64_def binary64_numeral del: list.map)

lemma mean_plus_gmean_binary64_555:
  "mean_plus_gmean float64 (floats [5, 5, 5]) 1 = Inr (Val (6 - 1 / 2 ^ 50))"
proof -
  have e1: "5 - 1 / 2 ^ 50 - 4 = (1 - 1 / 2 ^ 50 :: real)" by simp
  have e2: "1 * (1 - 1 / 2 ^ 50) = (1 - 1 / 2 ^ 50 :: real)" by simp
  have e3: "5 + (1 - 1 / 2 ^ 50) = (6 - 1 / 2 ^ 50 :: real)" by simp
  have s: "np_sub binary64 (Val (5 - 1 / 2 ^ 50)) (Val 4) = Val (1 - 1 / 2 ^ 50)"
    by (simp only: np_sub_def np_arith.simps e1 binary64_ulp_facts_five)
  have m: "np_mul binary64 (Val 1) (Val (1 - 1 / 2 ^ 50)) = Val (1 - 1 / 2 ^ 50)"
    by (simp only: np_mul_def np_arith.simps e2 binary64_ulp_facts_five)
  have a: "np_add binary64 (Val 5) (Val (1 - 1 / 2 ^ 50)) = Val (6 - 1 / 2 ^ 50)"
    by (simp only: np_add_def np_arith.simps e3 binary64_ulp_facts_five)
  show ?thesis
    by (simp only: mean_plus_gmean_def rnd_float64 Let_def amean_binary64_555 gmean_binary64_555
        sum.case s m a)
qed

subsection \<open>Error bounds for the other notebook calls\<close>

text \<open>
  The other calls of the notebook return roundings of irrational numbers. Every rounding
  of a number of absolute value at most 64 moves it by at most \<open>2^-47\<close>. The sum and the
  product are exact on these scores, and five roundings follow them (of the division, the
  power, the subtraction, the multiplication and the addition); so the result is within
  \<open>5/2^47\<close> of the formula evaluated at the rounded exponent, and the power there is
  enclosed by rational bounds.
\<close>

lemma combine_binary64_close:
  assumes "\<bar>A\<bar> \<le> 16" and "\<bar>G\<bar> \<le> 16"
  shows "\<exists>R. np_add binary64 (Val A) (np_mul binary64 (Val 1) (np_sub binary64 (Val G) (Val 4)))
               = Val R
             \<and> \<bar>R - (A + (G - 4))\<bar> \<le> 3 / 2 ^ 47"
proof -
  define e :: real where "e = 1 / 2 ^ 47"
  define D where "D = binary64 (G - 4)"
  define T where "T = binary64 (1 * D)"
  define R where "R = binary64 (A + T)"
  have e: "0 \<le> e" "e \<le> 1" by (simp_all add: e_def)
  have G4: "\<bar>G - 4\<bar> \<le> 64" using assms(2) by linarith
  have d: "\<bar>D - (G - 4)\<bar> \<le> e"
    unfolding D_def e_def by (rule binary64_close [OF G4])
  have D64: "\<bar>D\<bar> \<le> 64" using d e assms(2) by linarith
  have TD: "T = binary64 D" by (simp add: T_def)
  have t: "\<bar>T - D\<bar> \<le> e"
    unfolding TD e_def by (rule binary64_close [OF D64])
  have AT: "\<bar>A + T\<bar> \<le> 64" using d t e assms by linarith
  have r: "\<bar>R - (A + T)\<bar> \<le> e"
    unfolding R_def e_def by (rule binary64_close [OF AT])
  have "np_add binary64 (Val A) (np_mul binary64 (Val 1) (np_sub binary64 (Val G) (Val 4)))
        = Val R"
    by (simp add: np_add_def np_mul_def np_sub_def R_def T_def D_def)
  moreover have "\<bar>R - (A + (G - 4))\<bar> \<le> 3 * e"
    using d t r by linarith
  ultimately show ?thesis by (auto simp add: e_def)
qed

lemma mean_plus_gmean_binary64_close:
  assumes ne: "xs \<noteq> []"
    and s: "sum_float64 binary64 xs = S" and sb: "\<bar>S / real (length xs)\<bar> \<le> 15"
    and p: "prod_float64 binary64 xs = P" and pp: "0 < P"
    and y: "binary64 (1 / real (length xs)) = y"
    and lo: "lo \<le> P powr y" and hi: "P powr y \<le> hi" and hb: "hi \<le> 15"
  shows "\<exists>R. mean_plus_gmean float64 (floats xs) 1 = Inr (Val R)
             \<and> S / real (length xs) + (lo - 4) - 5 / 2 ^ 47 \<le> R
             \<and> R \<le> S / real (length xs) + (hi - 4) + 5 / 2 ^ 47"
proof -
  define e :: real where "e = 1 / 2 ^ 47"
  define a where "a = S / real (length xs)"
  define A where "A = binary64 a"
  define G where "G = binary64 (P powr y)"
  have e: "0 \<le> e" "e \<le> 1" by (simp_all add: e_def)
  have g0: "0 \<le> P powr y" by simp
  have a15: "\<bar>a\<bar> \<le> 15" using sb by (simp only: a_def)
  have a64: "\<bar>a\<bar> \<le> 64" using a15 by linarith
  have a: "\<bar>A - a\<bar> \<le> e"
    unfolding A_def e_def by (rule binary64_close [OF a64])
  have g64: "\<bar>P powr y\<bar> \<le> 64" using hi hb g0 by linarith
  have g: "\<bar>G - P powr y\<bar> \<le> e"
    unfolding G_def e_def by (rule binary64_close [OF g64])
  have A16: "\<bar>A\<bar> \<le> 16" using a a15 e by linarith
  have G16: "\<bar>G\<bar> \<le> 16" using g hi hb g0 e by linarith
  have am: "amean float64 (floats xs) = Val A"
    using ne by (simp add: amean_floats rnd_float64 s A_def a_def del: list.map)
  have gm: "gmean float64 (floats xs) = Inr (Val G)"
    using ne pp by (simp add: gmean_floats rnd_float64 py_truediv_def p y np_power_def pwr_float64 G_def del: list.map)
  obtain R where R: "np_add binary64 (Val A) (np_mul binary64 (Val 1)
                       (np_sub binary64 (Val G) (Val 4))) = Val R"
    and Rb: "\<bar>R - (A + (G - 4))\<bar> \<le> 3 / 2 ^ 47"
    using combine_binary64_close [OF A16 G16] by blast
  have Rb': "\<bar>R - (A + (G - 4))\<bar> \<le> 3 * e" using Rb by (simp add: e_def)
  have "mean_plus_gmean float64 (floats xs) 1 = Inr (Val R)"
    by (simp only: mean_plus_gmean_def rnd_float64 Let_def am gm sum.case R)
  moreover have "a + (lo - 4) - 5 * e \<le> R"
    using a g Rb' lo by linarith
  moreover have "R \<le> a + (hi - 4) + 5 * e"
    using a g Rb' hi by linarith
  ultimately show ?thesis unfolding a_def by (auto simp add: e_def)
qed

lemma sqrt_between:
  fixes P l h :: real
  assumes "0 \<le> l" and "l * l \<le> P" and "0 \<le> h" and "P \<le> h * h"
  shows "l \<le> P powr (1 / 2)" and "P powr (1 / 2) \<le> h"
proof -
  have P0: "0 \<le> P" using assms(1,2) by (meson mult_nonneg_nonneg order_trans)
  have "l = (l * l) powr (1 / 2)" using assms(1) by (simp add: powr_half_of_square)
  also have "\<dots> \<le> P powr (1 / 2)"
    using assms(1,2) by (intro powr_mono2) simp_all
  finally show "l \<le> P powr (1 / 2)" .
  have "P powr (1 / 2) \<le> (h * h) powr (1 / 2)"
    using P0 assms(4) by (intro powr_mono2) simp_all
  also have "\<dots> = h" using assms(3) by (simp add: powr_half_of_square)
  finally show "P powr (1 / 2) \<le> h" .
qed

lemma cube_root_between:
  fixes P l h :: real
  assumes "1 \<le> P" and "P \<le> 125" and "0 < l" and "l ^ 3 \<le> P" and "0 < h" and "P \<le> h ^ 3"
  shows "l * (1 - 1 / 2 ^ 46) \<le> P powr (6004799503160661 / 2 ^ 54)"
    and "P powr (6004799503160661 / 2 ^ 54) \<le> h"
proof -
  define c :: real where "c = 1 / (3 * 2 ^ 54)"
  define y :: real where "y = 6004799503160661 / 2 ^ 54"
  have yc: "y = 1 / 3 - c" by (simp add: y_def c_def)
  have P0: "0 < P" using assms(1) by simp
  have root_l: "l \<le> P powr (1 / 3)"
  proof -
    have "l = (l ^ 3) powr (1 / real 3)" using assms(3) replicate_powr [of 3 l] by simp
    also have "\<dots> \<le> P powr (1 / real 3)"
      using assms(3,4) by (intro powr_mono2) simp_all
    finally show ?thesis by simp
  qed
  have root_h: "P powr (1 / 3) \<le> h"
  proof -
    have "P powr (1 / real 3) \<le> (h ^ 3) powr (1 / real 3)"
      using P0 assms(6) by (intro powr_mono2) simp_all
    also have "\<dots> = h" using assms(5) replicate_powr [of 3 h] by simp
    finally show ?thesis by simp
  qed
  have "P powr y \<le> P powr (1 / 3)"
    using assms(1) by (intro powr_mono) (simp_all add: y_def)
  then show "P powr (6004799503160661 / 2 ^ 54) \<le> h"
    using root_h by (simp add: y_def)
  define a where "a = c * (P - 1)"
  have a0: "0 \<le> a" and a1: "a \<le> 1 / 2 ^ 48"
    using assms(1,2) by (simp_all add: a_def c_def)
  have "c * ln P \<le> a"
    unfolding a_def using ln_le_minus_one [OF P0] by (intro mult_left_mono) (simp_all add: c_def)
  then have "P powr c \<le> exp a"
    using P0 by (simp add: powr_def mult.commute)
  also have "exp a \<le> 1 + a + a\<^sup>2"
    using a0 a1 by (intro exp_bound) simp_all
  also have "\<dots> \<le> 1 + 1 / 2 ^ 47"
  proof -
    have "a\<^sup>2 \<le> a * 1" unfolding power2_eq_square using a0 a1 by (intro mult_left_mono) simp_all
    then show ?thesis using a1 by simp
  qed
  finally have pc: "P powr c \<le> 1 + 1 / 2 ^ 47" .
  have pc0: "0 < P powr c" using P0 by simp
  have "(1 - 1 / 2 ^ 46) * P powr c \<le> (1 - 1 / 2 ^ 46) * (1 + 1 / 2 ^ 47)"
    using pc by (intro mult_left_mono) simp_all
  also have "\<dots> \<le> (1::real)" by simp
  finally have "1 - 1 / 2 ^ 46 \<le> 1 / P powr c"
    using pc0 by (simp add: pos_le_divide_eq)
  then have "l * (1 - 1 / 2 ^ 46) \<le> P powr (1 / 3) * (1 / P powr c)"
    using root_l assms(3) by (intro mult_mono) simp_all
  also have "\<dots> = P powr y"
    by (simp add: yc powr_diff)
  finally show "l * (1 - 1 / 2 ^ 46) \<le> P powr (6004799503160661 / 2 ^ 54)"
    by (simp add: y_def)
qed

lemma mean_plus_gmean_binary64_squares:
  "mean_plus_gmean float64 (floats [4, 4]) 1 = Inr (Val 4)"
  "mean_plus_gmean float64 (floats [5, 5]) 1 = Inr (Val 6)"
  "mean_plus_gmean float64 (floats [3, 3]) 1 = Inr (Val 2)"
proof -
  have r4: "(16::real) powr (1 / 2) = 4" using powr_half_of_square [of 4] by simp
  have r5: "(25::real) powr (1 / 2) = 5" using powr_half_of_square [of 5] by simp
  have r3: "(9::real) powr (1 / 2) = 3" using powr_half_of_square [of 3] by simp
  show "mean_plus_gmean float64 (floats [4, 4]) 1 = Inr (Val 4)"
    by (simp add: mean_plus_gmean_def rnd_float64 amean_floats gmean_floats py_truediv_def sum_float64_def prod_float64_def
        np_power_def pwr_float64 np_add_def np_mul_def np_sub_def
        binary64_numeral binary64_zero binary64_one binary64_half r4 del: list.map)
  show "mean_plus_gmean float64 (floats [5, 5]) 1 = Inr (Val 6)"
    by (simp add: mean_plus_gmean_def rnd_float64 amean_floats gmean_floats py_truediv_def sum_float64_def prod_float64_def
        np_power_def pwr_float64 np_add_def np_mul_def np_sub_def
        binary64_numeral binary64_zero binary64_one binary64_half r5 del: list.map)
  show "mean_plus_gmean float64 (floats [3, 3]) 1 = Inr (Val 2)"
    by (simp add: mean_plus_gmean_def rnd_float64 amean_floats gmean_floats py_truediv_def sum_float64_def prod_float64_def
        np_power_def pwr_float64 np_add_def np_mul_def np_sub_def
        binary64_numeral binary64_zero binary64_one binary64_neg_one binary64_half r3 del: list.map)
qed

lemma mean_plus_gmean_binary64_35:
  "\<exists>R. mean_plus_gmean float64 (floats [3, 5]) 1 = Inr (Val R) \<and> \<bar>R - 3872983 / 10 ^ 6\<bar> < 5 / 10 ^ 7"
proof -
  have b: "38729833462 / 10 ^ 10 \<le> (15::real) powr (1 / 2)"
          "(15::real) powr (1 / 2) \<le> 38729833463 / 10 ^ 10"
    by (rule sqrt_between [of "38729833462 / 10 ^ 10" 15 "38729833463 / 10 ^ 10"]; simp)+
  have "\<exists>R. mean_plus_gmean float64 (floats [3, 5]) 1 = Inr (Val R)
          \<and> 8 / real (length [3, 5 :: real]) + (38729833462 / 10 ^ 10 - 4) - 5 / 2 ^ 47 \<le> R
          \<and> R \<le> 8 / real (length [3, 5 :: real]) + (38729833463 / 10 ^ 10 - 4) + 5 / 2 ^ 47"
  proof (rule mean_plus_gmean_binary64_close [where P = 15 and y = "1 / 2"])
    show "sum_float64 binary64 [3, 5] = 8" by (simp add: sum_float64_def binary64_numeral)
    show "prod_float64 binary64 [3, 5] = 15" by (simp add: prod_float64_def binary64_numeral)
    show "binary64 (1 / real (length [3, 5 :: real])) = 1 / 2" by (simp add: binary64_half)
    show "38729833462 / 10 ^ 10 \<le> (15::real) powr (1 / 2)" by (rule b)
    show "(15::real) powr (1 / 2) \<le> 38729833463 / 10 ^ 10" by (rule b)
  qed simp_all
  then obtain R where R: "mean_plus_gmean float64 (floats [3, 5]) 1 = Inr (Val R)"
    and lo: "8 / real (length [3, 5 :: real]) + (38729833462 / 10 ^ 10 - 4) - 5 / 2 ^ 47 \<le> R"
    and hi: "R \<le> 8 / real (length [3, 5 :: real]) + (38729833463 / 10 ^ 10 - 4) + 5 / 2 ^ 47"
    by blast
  have "\<bar>R - 3872983 / 10 ^ 6\<bar> < 5 / 10 ^ 7"
    using lo hi by (simp add: abs_less_iff)
  then show ?thesis using R by blast
qed

lemma mean_plus_gmean_binary64_9_12:
  "\<exists>R. mean_plus_gmean float64 (floats [9, 12]) 1 = Inr (Val R)
       \<and> \<bar>R - 16892305 / 10 ^ 6\<bar> < 5 / 10 ^ 7"
proof -
  have b: "103923048454 / 10 ^ 10 \<le> (108::real) powr (1 / 2)"
          "(108::real) powr (1 / 2) \<le> 103923048455 / 10 ^ 10"
    by (rule sqrt_between [of "103923048454 / 10 ^ 10" 108 "103923048455 / 10 ^ 10"]; simp)+
  have "\<exists>R. mean_plus_gmean float64 (floats [9, 12]) 1 = Inr (Val R)
          \<and> 21 / real (length [9, 12 :: real]) + (103923048454 / 10 ^ 10 - 4) - 5 / 2 ^ 47 \<le> R
          \<and> R \<le> 21 / real (length [9, 12 :: real]) + (103923048455 / 10 ^ 10 - 4) + 5 / 2 ^ 47"
  proof (rule mean_plus_gmean_binary64_close [where P = 108 and y = "1 / 2"])
    show "sum_float64 binary64 [9, 12] = 21" by (simp add: sum_float64_def binary64_numeral)
    show "prod_float64 binary64 [9, 12] = 108" by (simp add: prod_float64_def binary64_numeral)
    show "binary64 (1 / real (length [9, 12 :: real])) = 1 / 2" by (simp add: binary64_half)
    show "103923048454 / 10 ^ 10 \<le> (108::real) powr (1 / 2)" by (rule b)
    show "(108::real) powr (1 / 2) \<le> 103923048455 / 10 ^ 10" by (rule b)
  qed simp_all
  then obtain R where R: "mean_plus_gmean float64 (floats [9, 12]) 1 = Inr (Val R)"
    and lo: "21 / real (length [9, 12 :: real]) + (103923048454 / 10 ^ 10 - 4) - 5 / 2 ^ 47 \<le> R"
    and hi: "R \<le> 21 / real (length [9, 12 :: real]) + (103923048455 / 10 ^ 10 - 4) + 5 / 2 ^ 47"
    by blast
  have "\<bar>R - 16892305 / 10 ^ 6\<bar> < 5 / 10 ^ 7"
    using lo hi by (simp add: abs_less_iff)
  then show ?thesis using R by blast
qed

lemma mean_plus_gmean_binary64_cubes:
  fixes l h S P :: real
  assumes s: "sum_float64 binary64 [a, b, c] = S" and sb: "\<bar>S / 3\<bar> \<le> 15"
    and p: "prod_float64 binary64 [a, b, c] = P" and p1: "1 \<le> P" and p2: "P \<le> 125"
    and l: "0 < l" "l ^ 3 \<le> P" and h: "0 < h" "P \<le> h ^ 3" "h \<le> 15"
  shows "\<exists>R. mean_plus_gmean float64 (floats [a, b, c]) 1 = Inr (Val R)
             \<and> S / 3 + (l * (1 - 1 / 2 ^ 46) - 4) - 5 / 2 ^ 47 \<le> R
             \<and> R \<le> S / 3 + (h - 4) + 5 / 2 ^ 47"
proof -
  have "\<exists>R. mean_plus_gmean float64 (floats [a, b, c]) 1 = Inr (Val R)
          \<and> S / real (length [a, b, c]) + (l * (1 - 1 / 2 ^ 46) - 4) - 5 / 2 ^ 47 \<le> R
          \<and> R \<le> S / real (length [a, b, c]) + (h - 4) + 5 / 2 ^ 47"
  proof (rule mean_plus_gmean_binary64_close
      [where P = P and y = "6004799503160661 / 2 ^ 54"])
    show "sum_float64 binary64 [a, b, c] = S" by (rule s)
    show "prod_float64 binary64 [a, b, c] = P" by (rule p)
    show "binary64 (1 / real (length [a, b, c])) = 6004799503160661 / 2 ^ 54"
      using binary64_third by simp
    show "l * (1 - 1 / 2 ^ 46) \<le> P powr (6004799503160661 / 2 ^ 54)"
      by (rule cube_root_between [OF p1 p2 l h(1,2)])
    show "P powr (6004799503160661 / 2 ^ 54) \<le> h"
      by (rule cube_root_between [OF p1 p2 l h(1,2)])
    show "\<bar>S / real (length [a, b, c])\<bar> \<le> 15" using sb by simp
    show "0 < P" using p1 by simp
    show "h \<le> 15" by (rule h(3))
  qed simp
  then show ?thesis by simp
qed

lemma mean_plus_gmean_binary64_445:
  "\<exists>R. mean_plus_gmean float64 (floats [4, 4, 5]) 1 = Inr (Val R)
       \<and> \<bar>R - 4642203 / 10 ^ 6\<bar> < 5 / 10 ^ 7"
proof -
  have "\<exists>R. mean_plus_gmean float64 (floats [4, 4, 5]) 1 = Inr (Val R)
          \<and> 13 / 3 + (430886938 / 10 ^ 8 * (1 - 1 / 2 ^ 46) - 4) - 5 / 2 ^ 47 \<le> R
          \<and> R \<le> 13 / 3 + (430886939 / 10 ^ 8 - 4) + 5 / 2 ^ 47"
  proof (rule mean_plus_gmean_binary64_cubes [where P = 80])
    show "sum_float64 binary64 [4, 4, 5] = 13" by (simp add: sum_float64_def binary64_numeral)
    show "prod_float64 binary64 [4, 4, 5] = 80" by (simp add: prod_float64_def binary64_numeral)
  qed (simp_all add: power3_eq_cube)
  then obtain R where R: "mean_plus_gmean float64 (floats [4, 4, 5]) 1 = Inr (Val R)"
    and lo: "13 / 3 + (430886938 / 10 ^ 8 * (1 - 1 / 2 ^ 46) - 4) - 5 / 2 ^ 47 \<le> R"
    and hi: "R \<le> 13 / 3 + (430886939 / 10 ^ 8 - 4) + 5 / 2 ^ 47"
    by blast
  have "\<bar>R - 4642203 / 10 ^ 6\<bar> < 5 / 10 ^ 7"
    using lo hi by (simp add: abs_less_iff)
  then show ?thesis using R by blast
qed

lemma mean_plus_gmean_binary64_455:
  "\<exists>R. mean_plus_gmean float64 (floats [4, 5, 5]) 1 = Inr (Val R)
       \<and> \<bar>R - 5308256 / 10 ^ 6\<bar> < 5 / 10 ^ 7"
proof -
  have "\<exists>R. mean_plus_gmean float64 (floats [4, 5, 5]) 1 = Inr (Val R)
          \<and> 14 / 3 + (46415888336 / 10 ^ 10 * (1 - 1 / 2 ^ 46) - 4) - 5 / 2 ^ 47 \<le> R
          \<and> R \<le> 14 / 3 + (46415888337 / 10 ^ 10 - 4) + 5 / 2 ^ 47"
  proof (rule mean_plus_gmean_binary64_cubes [where P = 100])
    show "sum_float64 binary64 [4, 5, 5] = 14" by (simp add: sum_float64_def binary64_numeral)
    show "prod_float64 binary64 [4, 5, 5] = 100" by (simp add: prod_float64_def binary64_numeral)
  qed (simp_all add: power3_eq_cube)
  then obtain R where R: "mean_plus_gmean float64 (floats [4, 5, 5]) 1 = Inr (Val R)"
    and lo: "14 / 3 + (46415888336 / 10 ^ 10 * (1 - 1 / 2 ^ 46) - 4) - 5 / 2 ^ 47 \<le> R"
    and hi: "R \<le> 14 / 3 + (46415888337 / 10 ^ 10 - 4) + 5 / 2 ^ 47"
    by blast
  have "\<bar>R - 5308256 / 10 ^ 6\<bar> < 5 / 10 ^ 7"
    using lo hi by (simp add: abs_less_iff)
  then show ?thesis using R by blast
qed

section \<open>Small whole numbers as ints and as floats\<close>

text \<open>
  On a tuple of Python ints the sum and the product are computed in 64-bit integers and
  converted to doubles afterwards; on the same numbers given as floats they are computed
  in doubles. When both ways give the same sum and the same product, the two calls agree.
\<close>

lemma ints_as_floats:
  assumes "rnd ar (real_of_int (sint (sum_int64 ws))) = sum_float64 (rnd ar) (real_scores ws)"
    and "rnd ar (real_of_int (sint (prod_int64 ws))) = prod_float64 (rnd ar) (real_scores ws)"
  shows "amean ar (ints ws) = amean ar (floats (real_scores ws))"
    and "gmean ar (ints ws) = gmean ar (floats (real_scores ws))"
    and "mean_plus_gmean ar (ints ws) k = mean_plus_gmean ar (floats (real_scores ws)) k"
proof -
  have e: "real_scores ws = [] \<longleftrightarrow> ws = []" by (simp add: real_scores_def)
  show a: "amean ar (ints ws) = amean ar (floats (real_scores ws))"
    by (simp only: amean_ints amean_floats assms(1) length_real_scores e)
  show g: "gmean ar (ints ws) = gmean ar (floats (real_scores ws))"
  proof (cases "ws = []")
    case True
    then show ?thesis by (simp add: gmean_empty real_scores_def)
  next
    case False
    then have "py_truediv (rnd ar) 1 (length ws) = Inr (rnd ar (1 / real (length ws)))"
      by (simp add: py_truediv_def)
    then show ?thesis
      by (simp only: gmean_ints [OF False] gmean_floats assms(2) length_real_scores sum.case)
  qed
  show "mean_plus_gmean ar (ints ws) k = mean_plus_gmean ar (floats (real_scores ws)) k"
    by (simp only: mean_plus_gmean_def a g)
qed

lemma mean_plus_gmean_float64_ints:
  "mean_plus_gmean float64 (ints [4, 4]) k = mean_plus_gmean float64 (floats [4, 4]) k"
  "mean_plus_gmean float64 (ints [5, 5]) k = mean_plus_gmean float64 (floats [5, 5]) k"
  "mean_plus_gmean float64 (ints [3, 3]) k = mean_plus_gmean float64 (floats [3, 3]) k"
  "mean_plus_gmean float64 (ints [3, 5]) k = mean_plus_gmean float64 (floats [3, 5]) k"
  "mean_plus_gmean float64 (ints [9, 12]) k = mean_plus_gmean float64 (floats [9, 12]) k"
  "mean_plus_gmean float64 (ints [4, 4, 4]) k = mean_plus_gmean float64 (floats [4, 4, 4]) k"
  "mean_plus_gmean float64 (ints [4, 4, 5]) k = mean_plus_gmean float64 (floats [4, 4, 5]) k"
  "mean_plus_gmean float64 (ints [4, 5, 5]) k = mean_plus_gmean float64 (floats [4, 5, 5]) k"
  "mean_plus_gmean float64 (ints [5, 5, 5]) k = mean_plus_gmean float64 (floats [5, 5, 5]) k"
  using ints_as_floats(3) [of float64 "[4, 4]" k] ints_as_floats(3) [of float64 "[5, 5]" k]
    ints_as_floats(3) [of float64 "[3, 3]" k] ints_as_floats(3) [of float64 "[3, 5]" k]
    ints_as_floats(3) [of float64 "[9, 12]" k] ints_as_floats(3) [of float64 "[4, 4, 4]" k]
    ints_as_floats(3) [of float64 "[4, 4, 5]" k] ints_as_floats(3) [of float64 "[4, 5, 5]" k]
    ints_as_floats(3) [of float64 "[5, 5, 5]" k]
  by (simp_all add: rnd_float64 sum_int64_def prod_int64_def sum_float64_def prod_float64_def
      real_scores_def binary64_numeral del: of_int_sint)

section \<open>How far the program is from the formula\<close>

text \<open>
  Every rounding moves a number by at most the fraction \<open>2^-53\<close> of its size, and the
  power function by at most \<open>2^-52\<close>. For scores that are 64-bit integers whose sum and
  product do not wrap around, these errors add up to less than the fraction \<open>2^-45\<close> of
  the sizes of the terms of \<open>A + k * (G - 4)\<close>.
\<close>

lemma binary64_rel: "\<bar>binary64 x - x\<bar> \<le> \<bar>x\<bar> / 2 ^ 53"
proof (cases "x = 0")
  case True
  then show ?thesis by (simp add: binary64_zero)
next
  case False
  then show ?thesis by (rule binary64_err)
qed

lemma binary64_within:
  assumes "\<bar>x\<bar> \<le> B"
  shows "\<bar>binary64 x - x\<bar> \<le> B / 2 ^ 53"
proof -
  have "\<bar>x\<bar> / 2 ^ 53 \<le> B / 2 ^ 53" using assms by (simp add: divide_right_mono)
  then show ?thesis using binary64_rel [of x] by linarith
qed

lemma binary64_two_63: "binary64 (2 ^ 63) = 2 ^ 63"
  using binary64_exact [of 1 63] by (simp add: powr_realpow)

lemma ln_near_one:
  fixes r :: real
  assumes "1 - 1 / 2 ^ 53 \<le> r" and "r \<le> 1 + 1 / 2 ^ 53"
  shows "\<bar>ln r\<bar> \<le> 2 / 2 ^ 53"
proof -
  have rpos: "0 < r" using assms(1) by simp
  have up: "ln r \<le> r - 1" using rpos by (rule ln_le_minus_one)
  have "ln (1 / r) \<le> 1 / r - 1" using rpos by (intro ln_le_minus_one) simp
  then have lo: "- ln r \<le> 1 / r - 1" using rpos by (simp add: ln_div)
  have "1 / r \<le> 1 / (1 - 1 / 2 ^ 53)"
    using assms(1) by (intro divide_left_mono) simp_all
  also have "\<dots> \<le> 1 + 2 / 2 ^ 53" by simp
  finally have "1 / r \<le> 1 + 2 / 2 ^ 53" .
  then show ?thesis using up lo assms(2) by linarith
qed

lemma exp_near_zero:
  fixes t :: real
  assumes "\<bar>t\<bar> \<le> 65 / 2 ^ 53"
  shows "\<bar>exp t - 1\<bar> \<le> 130 / 2 ^ 53"
proof (cases "0 \<le> t")
  case True
  have t1: "t \<le> 1" using assms by simp
  have "exp t \<le> 1 + t + t\<^sup>2" using True t1 by (rule exp_bound)
  moreover have "t\<^sup>2 \<le> t * 1" unfolding power2_eq_square using True t1 by (intro mult_left_mono)
  moreover have "1 + t \<le> exp t" by (rule exp_ge_add_one_self)
  moreover have "t \<le> 65 / 2 ^ 53" using assms by linarith
  ultimately show ?thesis using True by linarith
next
  case False
  have a: "1 + t \<le> exp t" by (rule exp_ge_add_one_self)
  have b: "exp t \<le> 1" using False by simp
  have c: "- (65 / 2 ^ 53) \<le> t" using assms by linarith
  show ?thesis using a b c by linarith
qed

lemma power_close:
  fixes P :: real
  assumes pw: "accurate_power pw" and P1: "1 \<le> P" and P2: "P \<le> 2 ^ 63" and n: "0 < n"
  shows "\<bar>pw (binary64 P) (binary64 (1 / real n)) - P powr (1 / real n)\<bar>
           \<le> 133 * (P powr (1 / real n)) / 2 ^ 53"
    and "1 \<le> binary64 P" and "0 < binary64 (1 / real n)"
proof -
  define Pf where "Pf = binary64 P"
  define y where "y = binary64 (1 / real n)"
  define G where "G = P powr (1 / real n)"
  define t where "t = y * ln Pf - ln P / real n"
  have rn: "1 \<le> real n" using n by simp
  have Gpos: "0 < G" using P1 by (simp add: G_def)
  have Pf1: "1 \<le> Pf"
    unfolding Pf_def using binary64_mono [of 1 P] P1 by (simp add: binary64_one)
  have "binary64 P \<le> binary64 (2 ^ 63)" using P2 by (rule binary64_mono)
  then have Pf2: "Pf \<le> 2 ^ 63" unfolding Pf_def binary64_two_63 .
  have Pfe: "\<bar>Pf - P\<bar> \<le> P / 2 ^ 53"
    unfolding Pf_def using binary64_rel [of P] P1 by simp
  have y0: "0 < y" unfolding y_def using n by (intro binary64_pos) simp
  have "1 / real n \<le> 1" using rn by simp
  then have y1: "y \<le> 1"
    unfolding y_def using binary64_mono [of "1 / real n" 1] by (simp add: binary64_one)
  have ye: "\<bar>y - 1 / real n\<bar> \<le> 1 / 2 ^ 53"
  proof -
    have "\<bar>y - 1 / real n\<bar> \<le> \<bar>1 / real n\<bar> / 2 ^ 53" unfolding y_def by (rule binary64_rel)
    also have "\<dots> \<le> 1 / 2 ^ 53" using rn by (simp add: divide_right_mono)
    finally show ?thesis .
  qed
  have lnPf: "0 \<le> ln Pf" "ln Pf \<le> 63"
  proof -
    show "0 \<le> ln Pf" using Pf1 by simp
    have "ln Pf \<le> ln (2 ^ 63)" using Pf1 Pf2 by (subst ln_le_cancel_iff) simp_all
    also have "\<dots> = real 63 * ln 2" by (rule ln_realpow)
    also have "\<dots> \<le> real 63 * 1" using ln2_bounds(2) by (intro mult_left_mono) simp_all
    finally show "ln Pf \<le> 63" by simp
  qed
  have ratio: "\<bar>ln Pf - ln P\<bar> \<le> 2 / 2 ^ 53"
  proof -
    have Ppos: "0 < P" using P1 by simp
    have a: "P - P / 2 ^ 53 \<le> Pf" and b: "Pf \<le> P + P / 2 ^ 53" using Pfe by linarith+
    have "(1 - 1 / 2 ^ 53) * P \<le> Pf" using a by (simp only: left_diff_distrib) simp
    then have lo: "1 - 1 / 2 ^ 53 \<le> Pf / P" using Ppos by (simp only: pos_le_divide_eq)
    have "Pf \<le> (1 + 1 / 2 ^ 53) * P" using b by (simp only: distrib_right) simp
    then have hi: "Pf / P \<le> 1 + 1 / 2 ^ 53" using Ppos by (simp only: pos_divide_le_eq)
    from lo hi have "\<bar>ln (Pf / P)\<bar> \<le> 2 / 2 ^ 53" by (rule ln_near_one)
    then show ?thesis using Pf1 P1 by (simp add: ln_div)
  qed
  have t1: "\<bar>(y - 1 / real n) * ln Pf\<bar> \<le> 63 / 2 ^ 53"
  proof -
    have "\<bar>(y - 1 / real n) * ln Pf\<bar> = \<bar>y - 1 / real n\<bar> * ln Pf"
      using lnPf(1) by (simp add: abs_mult)
    also have "\<dots> \<le> 1 / 2 ^ 53 * 63"
      using ye lnPf by (intro mult_mono) simp_all
    finally show ?thesis by simp
  qed
  have t2: "\<bar>(ln Pf - ln P) / real n\<bar> \<le> 2 / 2 ^ 53"
  proof -
    have "\<bar>(ln Pf - ln P) / real n\<bar> = \<bar>ln Pf - ln P\<bar> / real n" using rn by simp
    also have "\<dots> \<le> \<bar>ln Pf - ln P\<bar> / 1"
      using rn by (intro divide_left_mono) simp_all
    also have "\<dots> = \<bar>ln Pf - ln P\<bar>" by simp
    finally show ?thesis using ratio by linarith
  qed
  have "t = (y - 1 / real n) * ln Pf + (ln Pf - ln P) / real n"
    by (simp add: t_def algebra_simps diff_divide_distrib)
  then have tb: "\<bar>t\<bar> \<le> 65 / 2 ^ 53" using t1 t2 by linarith
  have et: "\<bar>exp t - 1\<bar> \<le> 130 / 2 ^ 53" using tb by (rule exp_near_zero)
  have Pfy: "Pf powr y = G * exp t"
  proof -
    have "Pf powr y = exp (y * ln Pf)" using Pf1 by (simp add: powr_def)
    also have "y * ln Pf = ln P / real n + t" by (simp add: t_def)
    also have "exp (ln P / real n + t) = exp (ln P / real n) * exp t" by (rule exp_add)
    also have "exp (ln P / real n) = G" using P1 by (simp add: G_def powr_def)
    finally show ?thesis .
  qed
  have d1: "\<bar>Pf powr y - G\<bar> \<le> 130 * G / 2 ^ 53"
  proof -
    have "Pf powr y - G = G * (exp t - 1)" by (simp add: Pfy right_diff_distrib)
    then have "\<bar>Pf powr y - G\<bar> = \<bar>G\<bar> * \<bar>exp t - 1\<bar>" by (simp only: abs_mult)
    also have "\<dots> = G * \<bar>exp t - 1\<bar>" using Gpos by simp
    finally have "\<bar>Pf powr y - G\<bar> = G * \<bar>exp t - 1\<bar>" .
    also have "\<dots> \<le> G * (130 / 2 ^ 53)"
      using et Gpos by (intro mult_left_mono) simp_all
    finally show ?thesis by simp
  qed
  have acc: "\<bar>pw Pf y - Pf powr y\<bar> \<le> Pf powr y / 2 ^ 52"
    using pw Pf1 Pf2 y0 y1 by (simp add: accurate_power_def)
  have "Pf powr y \<le> G + 130 * G / 2 ^ 53" using d1 by linarith
  also have "\<dots> \<le> G * (3 / 2)" using Gpos by simp
  finally have "Pf powr y / 2 ^ 52 \<le> G * (3 / 2) / 2 ^ 52" by (simp add: divide_right_mono)
  then have d2: "\<bar>pw Pf y - Pf powr y\<bar> \<le> 3 * G / 2 ^ 53" using acc by simp
  have "\<bar>pw Pf y - G\<bar> \<le> 133 * G / 2 ^ 53" using d1 d2 by linarith
  then show "\<bar>pw (binary64 P) (binary64 (1 / real n)) - P powr (1 / real n)\<bar>
           \<le> 133 * (P powr (1 / real n)) / 2 ^ 53"
    by (simp only: Pf_def y_def G_def)
  show "1 \<le> binary64 P" using Pf1 by (simp only: Pf_def)
  show "0 < binary64 (1 / real n)" using y0 by (simp only: y_def)
qed

lemma combine_close:
  fixes a g A G k :: real
  assumes a: "\<bar>a - A\<bar> \<le> 3 * \<bar>A\<bar> / 2 ^ 53" and g: "\<bar>g - G\<bar> \<le> 133 * G / 2 ^ 53"
    and G0: "0 \<le> G"
  shows "\<bar>binary64 (a + binary64 (k * binary64 (g - 4))) - (A + k * (G - 4))\<bar>
           \<le> (\<bar>A\<bar> + \<bar>k\<bar> * (G + 4)) / 2 ^ 45"
proof -
  define X where "X = \<bar>A\<bar>"
  define W where "W = G + 4"
  define K where "K = \<bar>k\<bar>"
  define Y where "Y = K * W"
  define uX where "uX = X / 2 ^ 53"
  define uW where "uW = W / 2 ^ 53"
  define uY where "uY = Y / 2 ^ 53"
  define d where "d = binary64 (g - 4)"
  define t where "t = binary64 (k * d)"
  define R where "R = binary64 (a + t)"
  have X0: "0 \<le> X" and W4: "4 \<le> W" and K0: "0 \<le> K"
    using G0 by (simp_all add: X_def W_def K_def)
  have Y0: "0 \<le> Y" unfolding Y_def using K0 W4 by simp
  have uX: "0 \<le> uX" "1000 * uX \<le> X" using X0 by (simp_all add: uX_def)
  have uW: "0 \<le> uW" "1000 * uW \<le> W" using W4 by (simp_all add: uW_def)
  have uY: "0 \<le> uY" "1000 * uY \<le> Y" using Y0 by (simp_all add: uY_def)
  have KuW: "K * uW = uY" by (simp add: uY_def uW_def Y_def)
  have a': "\<bar>a - A\<bar> \<le> 3 * uX" using a by (simp add: uX_def X_def)
  have "133 * G / 2 ^ 53 \<le> 133 * W / 2 ^ 53" by (simp add: W_def)
  then have g': "\<bar>g - G\<bar> \<le> 133 * uW" using g by (simp add: uW_def)
  have GW: "\<bar>G - 4\<bar> \<le> W" using G0 by (simp add: W_def)
  have "\<bar>g - 4\<bar> \<le> 2 * W" using g' GW uW by linarith
  then have "\<bar>d - (g - 4)\<bar> \<le> 2 * W / 2 ^ 53" unfolding d_def by (rule binary64_within)
  then have d1: "\<bar>d - (g - 4)\<bar> \<le> 2 * uW" by (simp add: uW_def)
  have d2: "\<bar>d - (G - 4)\<bar> \<le> 135 * uW" using d1 g' by linarith
  have d3: "\<bar>d\<bar> \<le> 2 * W" using d2 GW uW by linarith
  have "k * d - k * (G - 4) = k * (d - (G - 4))" by (simp add: right_diff_distrib)
  then have "\<bar>k * d - k * (G - 4)\<bar> = K * \<bar>d - (G - 4)\<bar>" by (simp only: abs_mult K_def)
  also have "\<dots> \<le> K * (135 * uW)" using d2 K0 by (rule mult_left_mono)
  also have "\<dots> = 135 * uY" using KuW by simp
  finally have kd1: "\<bar>k * d - k * (G - 4)\<bar> \<le> 135 * uY" .
  have "\<bar>k * d\<bar> = K * \<bar>d\<bar>" by (simp only: abs_mult K_def)
  also have "\<dots> \<le> K * (2 * W)" using d3 K0 by (rule mult_left_mono)
  also have "\<dots> = 2 * Y" by (simp add: Y_def)
  finally have kd2: "\<bar>k * d\<bar> \<le> 2 * Y" .
  have "\<bar>k * (G - 4)\<bar> = K * \<bar>G - 4\<bar>" by (simp only: abs_mult K_def)
  also have "\<dots> \<le> K * W" using GW K0 by (rule mult_left_mono)
  finally have kG: "\<bar>k * (G - 4)\<bar> \<le> Y" by (simp only: Y_def)
  have "\<bar>t - k * d\<bar> \<le> 2 * Y / 2 ^ 53" unfolding t_def using kd2 by (rule binary64_within)
  then have t1: "\<bar>t - k * d\<bar> \<le> 2 * uY" by (simp add: uY_def)
  have t2: "\<bar>t - k * (G - 4)\<bar> \<le> 137 * uY" using t1 kd1 by linarith
  have t3: "\<bar>t\<bar> \<le> 2 * Y" using t2 kG uY by linarith
  have a3: "\<bar>a\<bar> \<le> 2 * X" using a' uX unfolding X_def by linarith
  have "\<bar>a + t\<bar> \<le> 2 * X + 2 * Y" using a3 t3 by linarith
  then have "\<bar>R - (a + t)\<bar> \<le> (2 * X + 2 * Y) / 2 ^ 53"
    unfolding R_def by (rule binary64_within)
  then have r1: "\<bar>R - (a + t)\<bar> \<le> 2 * uX + 2 * uY"
    by (simp add: uX_def uY_def add_divide_distrib)
  have "\<bar>R - (A + k * (G - 4))\<bar> \<le> 256 * uX + 256 * uY" using r1 a' t2 uX uY by linarith
  also have "256 * uX + 256 * uY = (X + Y) / 2 ^ 45"
    by (simp add: uX_def uY_def add_divide_distrib)
  finally show ?thesis by (simp only: R_def t_def d_def X_def Y_def K_def W_def)
qed

lemma amean_close:
  assumes rd: "rnd ar = binary64" and ne: "ws \<noteq> []"
    and S: "fits_int64 (sum_list (int_scores ws))"
  shows "\<exists>a. amean ar (ints ws) = Val a
           \<and> \<bar>a - sum_list (real_scores ws) / real (length ws)\<bar>
                \<le> 3 * \<bar>sum_list (real_scores ws) / real (length ws)\<bar> / 2 ^ 53"
proof -
  define n where "n = real (length ws)"
  define s where "s = sum_list (real_scores ws)"
  define A where "A = s / n"
  define X where "X = \<bar>A\<bar>"
  define uX where "uX = X / 2 ^ 53"
  define sf where "sf = binary64 s"
  define a where "a = binary64 (sf / n)"
  have n1: "1 \<le> n" using ne by (cases ws) (simp_all add: n_def)
  have uX: "0 \<le> uX" "1000 * uX \<le> X" by (simp_all add: uX_def X_def)
  have "real_of_int (sint (sum_int64 ws)) = s"
    by (simp only: sum_int64_exact [OF S] real_scores_sum s_def)
  then have am: "amean ar (ints ws) = Val a"
    using ne by (simp only: amean_ints rd a_def sf_def n_def if_False)
  have "\<bar>sf - s\<bar> \<le> \<bar>s\<bar> / 2 ^ 53" unfolding sf_def by (rule binary64_rel)
  then have "\<bar>sf - s\<bar> / n \<le> \<bar>s\<bar> / 2 ^ 53 / n" using n1 by (intro divide_right_mono) simp_all
  moreover have "\<bar>sf / n - A\<bar> = \<bar>sf - s\<bar> / n"
    using n1 by (simp add: A_def diff_divide_distrib [symmetric])
  moreover have "\<bar>s\<bar> / 2 ^ 53 / n = uX" using n1 by (simp add: uX_def X_def A_def)
  ultimately have q1: "\<bar>sf / n - A\<bar> \<le> uX" by (simp only:)
  have "\<bar>sf / n\<bar> \<le> 2 * X" using q1 uX unfolding X_def by linarith
  then have "\<bar>a - sf / n\<bar> \<le> 2 * X / 2 ^ 53" unfolding a_def by (rule binary64_within)
  then have "\<bar>a - sf / n\<bar> \<le> 2 * uX" by (simp add: uX_def)
  then have "\<bar>a - A\<bar> \<le> 3 * uX" using q1 by linarith
  then have "\<bar>a - A\<bar> \<le> 3 * \<bar>A\<bar> / 2 ^ 53" by (simp add: uX_def X_def)
  then show ?thesis using am unfolding A_def s_def n_def by blast
qed

lemma binary64_of_int_nonneg:
  assumes "0 \<le> (i::int)"
  shows "0 \<le> binary64 (real_of_int i)"
  using rounding_nonneg [OF monotone_rounding_binary64, of "real_of_int i"] assms by simp

lemma gmean_close:
  assumes m: "machine ar" and ne: "ws \<noteq> []"
    and P0: "0 \<le> prod_list (int_scores ws)" and P1: "prod_list (int_scores ws) < 2 ^ 63"
  shows "\<exists>g. gmean ar (ints ws) = Inr (Val g)
           \<and> \<bar>g - prod_list (real_scores ws) powr (1 / real (length ws))\<bar>
                \<le> 133 * (prod_list (real_scores ws) powr (1 / real (length ws))) / 2 ^ 53"
proof -
  define p where "p = prod_list (int_scores ws)"
  define n where "n = length ws"
  have rd: "rnd ar = binary64" and pw: "accurate_power (pwr ar)"
    using m by (simp_all add: machine_def)
  have n: "0 < n" using ne by (simp add: n_def)
  have fits: "fits_int64 (prod_list (int_scores ws))"
    using P0 P1 by (simp add: fits_int64_def)
  have base: "real_of_int (sint (prod_int64 ws)) = real_of_int p"
    by (simp only: prod_int64_exact [OF fits] p_def)
  have rp: "prod_list (real_scores ws) = real_of_int p"
    by (simp only: real_scores_prod p_def)
  have gm: "gmean ar (ints ws)
            = Inr (np_power ar (binary64 (real_of_int p)) (binary64 (1 / real n)))"
    by (simp only: gmean_ints [OF ne] rd base n_def)
  show ?thesis
  proof (cases "p = 0")
    case True
    have y: "0 < binary64 (1 / real n)" using n by (intro binary64_pos) simp
    have "np_power ar (binary64 (real_of_int p)) (binary64 (1 / real n)) = Val 0"
      using y by (simp add: True np_power_def binary64_zero)
    then have "gmean ar (ints ws) = Inr (Val 0)" by (simp only: gm)
    moreover have "prod_list (real_scores ws) powr (1 / real (length ws)) = 0"
      by (simp add: rp True)
    ultimately show ?thesis by simp
  next
    case False
    then have "1 \<le> p" using P0 by (simp add: p_def)
    then have p1: "1 \<le> real_of_int p" by simp
    have "p \<le> 2 ^ 63" using P1 by (simp add: p_def)
    then have "real_of_int p \<le> real_of_int (2 ^ 63)" by (simp only: of_int_le_iff)
    then have p2: "real_of_int p \<le> 2 ^ 63" by simp
    note c = power_close [OF pw p1 p2 n]
    have "np_power ar (binary64 (real_of_int p)) (binary64 (1 / real n))
          = Val (pwr ar (binary64 (real_of_int p)) (binary64 (1 / real n)))"
      using c(2) by (simp add: np_power_def)
    then have "gmean ar (ints ws)
               = Inr (Val (pwr ar (binary64 (real_of_int p)) (binary64 (1 / real n))))"
      by (simp only: gm)
    then show ?thesis using c(1) unfolding rp n_def by blast
  qed
qed

lemma program_close:
  assumes m: "machine ar" and ne: "ws \<noteq> []"
    and S: "fits_int64 (sum_list (int_scores ws))"
    and P0: "0 \<le> prod_list (int_scores ws)" and P1: "prod_list (int_scores ws) < 2 ^ 63"
  shows "\<exists>a g R. amean ar (ints ws) = Val a \<and> gmean ar (ints ws) = Inr (Val g)
           \<and> mean_plus_gmean ar (ints ws) k = Inr (Val R)
           \<and> \<bar>a - sum_list (real_scores ws) / real (length ws)\<bar>
                \<le> 3 * \<bar>sum_list (real_scores ws) / real (length ws)\<bar> / 2 ^ 53
           \<and> \<bar>g - prod_list (real_scores ws) powr (1 / real (length ws))\<bar>
                \<le> 133 * (prod_list (real_scores ws) powr (1 / real (length ws))) / 2 ^ 53
           \<and> \<bar>R - combine_spec (real_scores ws) k 4\<bar>
                \<le> (\<bar>sum_list (real_scores ws) / real (length ws)\<bar>
                     + \<bar>k\<bar> * (prod_list (real_scores ws) powr (1 / real (length ws)) + 4)) / 2 ^ 45"
proof -
  define A where "A = sum_list (real_scores ws) / real (length ws)"
  define G where "G = prod_list (real_scores ws) powr (1 / real (length ws))"
  have rd: "rnd ar = binary64" using m by (simp add: machine_def)
  obtain a where a: "amean ar (ints ws) = Val a" and ab: "\<bar>a - A\<bar> \<le> 3 * \<bar>A\<bar> / 2 ^ 53"
    using amean_close [OF rd ne S] unfolding A_def by blast
  obtain g where g: "gmean ar (ints ws) = Inr (Val g)" and gb: "\<bar>g - G\<bar> \<le> 133 * G / 2 ^ 53"
    using gmean_close [OF m ne P0 P1] unfolding G_def by blast
  have G0: "0 \<le> G" by (simp add: G_def)
  define R where "R = binary64 (a + binary64 (k * binary64 (g - 4)))"
  have r: "mean_plus_gmean ar (ints ws) k = Inr (Val R)"
    by (simp only: mean_plus_gmean_number [OF a g] rd R_def)
  have "\<bar>R - (A + k * (G - 4))\<bar> \<le> (\<bar>A\<bar> + \<bar>k\<bar> * (G + 4)) / 2 ^ 45"
    unfolding R_def by (rule combine_close [OF ab gb G0])
  moreover have "combine_spec (real_scores ws) k 4 = A + k * (G - 4)"
    by (simp add: combine_spec_def A_def G_def length_real_scores)
  ultimately have rb: "\<bar>R - combine_spec (real_scores ws) k 4\<bar>
                         \<le> (\<bar>A\<bar> + \<bar>k\<bar> * (G + 4)) / 2 ^ 45"
    by (simp only:)
  show ?thesis using a g r ab gb rb unfolding A_def G_def by blast
qed

section \<open>Monotonicity\<close>

lemma accurate_power_float64: "accurate_power (pwr float64)"
proof -
  have "\<bar>binary64 (x powr y) - x powr y\<bar> \<le> x powr y / 2 ^ 52" for x y :: real
  proof -
    have "\<bar>binary64 (x powr y) - x powr y\<bar> \<le> \<bar>x powr y\<bar> / 2 ^ 53" by (rule binary64_rel)
    also have "\<dots> = x powr y / 2 ^ 53" by simp
    also have "\<dots> \<le> x powr y / 2 ^ 52" by (intro divide_left_mono) simp_all
    finally show ?thesis .
  qed
  then show ?thesis by (simp add: accurate_power_def pwr_float64)
qed

lemma machine_float64: "machine float64"
  by (simp add: machine_def rnd_float64 accurate_power_float64)








text \<open>Lists of positive integers: their sum and each member against their product.\<close>

lemma prod_list_int_pos:
  fixes xs :: "int list"
  assumes "\<forall>x\<in>set xs. 0 < x"
  shows "1 \<le> prod_list xs"
  using assms
proof (induction xs)
  case Nil
  then show ?case by simp
next
  case (Cons x xs)
  have "1 * 1 \<le> x * prod_list xs" using Cons by (intro mult_mono) simp_all
  then show ?case by simp
qed






lemma int_scores_pos:
  "(\<forall>w\<in>set ws. 0 < sint w) \<longleftrightarrow> (\<forall>x\<in>set (int_scores ws). 0 < x)"
  by (simp add: int_scores_def)



section \<open>Calls that show the wrap-around, the rounding and the sign of the product\<close>

lemmas float64_eval =
  mean_plus_gmean_def amean_ints gmean_ints amean_floats gmean_floats py_truediv_def
  sum_int64_def prod_int64_def sum_float64_def prod_float64_def rnd_float64 pwr_float64
  np_power_def np_add_def np_mul_def np_sub_def
  binary64_numeral binary64_minus binary64_zero binary64_one binary64_half

lemma binary64_sixteenth: "binary64 (1 / 16) = 1 / 16"
  using binary64_exact [of 1 "- 4"] by (simp add: powr_minus_divide)

lemma mean_plus_gmean_float64_sixteen:
  "mean_plus_gmean float64 (ints (replicate 16 16)) 1 = Inr (Val 12)"
proof -
  have l: "replicate 16 (16 :: 64 word)
           = [16, 16, 16, 16, 16, 16, 16, 16, 16, 16, 16, 16, 16, 16, 16, 16]"
    by (simp add: numeral_eq_Suc)
  show ?thesis
    unfolding l by (simp add: float64_eval binary64_sixteenth del: list.map)
qed

lemma combine_spec_sixteen: "combine_spec (replicate 16 16) 1 4 = 28"
proof -
  have p: "prod_list (replicate 16 (16::real)) = 16 ^ 16" by (simp add: numeral_eq_Suc)
  have s: "sum_list (replicate 16 (16::real)) = 256" by (simp add: sum_list_replicate)
  have r: "((16::real) ^ 16) powr (1 / real 16) = 16" by (rule replicate_powr) simp_all
  have r': "((16::real) ^ 16) powr (1 / 16) = 16" using r by simp
  show ?thesis unfolding combine_spec_def Let_def p s length_replicate
    by (simp only: r' of_nat_numeral) simp
qed

lemma mean_plus_gmean_float64_neg_number:
  "mean_plus_gmean float64 (ints [- 3, - 3]) 1 = Inr (Val (- 4))"
proof -
  have r: "(9::real) powr (1 / 2) = 3" using powr_half_of_square [of 3] by simp
  show ?thesis by (simp add: float64_eval r del: list.map)
qed


lemma mean_plus_gmean_float64_neg_product:
  "mean_plus_gmean float64 (ints [- 1, 4]) 1 = Inr NaN"
  "mean_plus_gmean float64 (ints [- 2, 8]) 1 = Inr NaN"
  by (rule mean_plus_gmean_neg_prod;
      simp add: rnd_float64 np_asarray_def prod_int64_def binary64_minus binary64_numeral)+

lemma mean_plus_gmean_float64_2_8:
  "amean float64 (ints [2, 8]) = Val 5"
  "gmean float64 (ints [2, 8]) = Inr (Val 4)"
  "mean_plus_gmean float64 (ints [2, 8]) 1 = Inr (Val 5)"
proof -
  have r: "(16::real) powr (1 / 2) = 4" using powr_half_of_square [of 4] by simp
  show "amean float64 (ints [2, 8]) = Val 5" by (simp add: float64_eval del: list.map)
  show "gmean float64 (ints [2, 8]) = Inr (Val 4)" by (simp add: float64_eval r del: list.map)
  show "mean_plus_gmean float64 (ints [2, 8]) 1 = Inr (Val 5)"
    by (simp add: float64_eval r del: list.map)
qed

text \<open>
  \<open>2^32 * 2^31\<close> is \<open>2^63\<close>, which wraps around to \<open>-2^63\<close>; so does
  \<open>(-2^32) * (-2^31)\<close>.
\<close>

lemma binary64_neg_two_63: "binary64 (- (2 ^ 63)) = - (2 ^ 63)"
  by (simp only: binary64_minus binary64_two_63)

lemma binary64_two_63_numeral:
  "binary64 9223372036854775808 = 9223372036854775808"
  "binary64 (- 9223372036854775808) = - 9223372036854775808"
  using binary64_two_63 binary64_neg_two_63 by simp_all

lemma prod_wraps:
  "sint (prod_int64 [4294967296, 2147483648]) = - (2 ^ 63)"
  "sint (prod_int64 [- 4294967296, - 2147483648]) = - (2 ^ 63)"
  "prod_list (int_scores [- 4294967296, - 2147483648]) = 2 ^ 63"
  by (simp_all add: prod_int64_def int_scores_def)

lemma gmean_float64_wrap: "gmean float64 (ints [4294967296, 2147483648]) = Inr NaN"
proof (rule gmean_neg_base)
  show "rnd float64 = ideal \<or> rnd float64 = binary64" by (simp add: rnd_float64)
  show "2 \<le> length (ints [4294967296, 2147483648])" by simp
  have "real_of_int (sint (prod_int64 [4294967296, 2147483648])) = - (2 ^ 63)"
    by (simp only: prod_wraps) simp
  then show "to_float64 (rnd float64)
          (np_prod (rnd float64) (np_asarray (rnd float64) (ints [4294967296, 2147483648]))) < 0"
    by (simp add: np_asarray_def rnd_float64 binary64_two_63_numeral del: of_int_sint)
qed

lemma mean_plus_gmean_float64_wrap:
  "mean_plus_gmean float64 (ints [- 4294967296, - 2147483648]) 1 = Inr NaN"
proof (rule mean_plus_gmean_neg_prod)
  show "rnd float64 = ideal \<or> rnd float64 = binary64" by (simp add: rnd_float64)
  show "2 \<le> length (ints [- 4294967296, - 2147483648])" by simp
  have "real_of_int (sint (prod_int64 [- 4294967296, - 2147483648])) = - (2 ^ 63)"
    by (simp only: prod_wraps) simp
  then show "to_float64 (rnd float64)
          (np_prod (rnd float64) (np_asarray (rnd float64) (ints [- 4294967296, - 2147483648]))) < 0"
    by (simp add: np_asarray_def rnd_float64 binary64_two_63_numeral del: of_int_sint)
qed

text \<open>
  The next double after 3 is \<open>3 + 2^-51\<close>. The sum of the two is halfway between the
  doubles 6 and \<open>6 + 2^-50\<close> and is rounded to 6, so that their arithmetic mean is 3; their
  product is rounded up to \<open>9 + 2^-49\<close>, whose square root is rounded up to \<open>3 + 2^-51\<close>.
\<close>

lemma sqrt_above_nine:
  "binary64 ((9 + 1 / 2 ^ 49) powr (1 / 2)) = 3 + 1 / 2 ^ 51"
proof -
  define v :: real where "v = (9 + 1 / 2 ^ 49) powr (1 / 2)"
  have b: "3 + 6 / (10 * 2 ^ 51) \<le> v" "v \<le> 3 + 14 / (10 * 2 ^ 51)"
    unfolding v_def
    by (rule sqrt_between [of "3 + 6 / (10 * 2 ^ 51)" "9 + 1 / 2 ^ 49" "3 + 14 / (10 * 2 ^ 51)"];
        simp add: field_simps)+
  have "binary64 v = of_int 6755399441055745 / 2 ^ 51"
  proof (rule binary64_round_pow)
    show "2 ^ 52 \<le> v * 2 ^ 51" using b(1) by simp
    show "v * 2 ^ 51 < 2 ^ 53" using b(2) by simp
    have lo: "6755399441055745 - 4 / 10 \<le> v * 2 ^ 51" using b(1) by simp
    have hi: "v * 2 ^ 51 \<le> 6755399441055745 + 4 / 10" using b(2) by simp
    have "\<bar>v * 2 ^ 51 - 6755399441055745\<bar> < 1 / 2" using lo hi by linarith
    then show "\<bar>v * 2 ^ 51 - of_int 6755399441055745\<bar> < 1 / 2" by simp
  qed
  then show ?thesis by (simp add: v_def)
qed

lemma am_gm_float64_adjacent:
  "amean float64 (floats [3, 3 + 1 / 2 ^ 51]) = Val 3"
  "gmean float64 (floats [3, 3 + 1 / 2 ^ 51]) = Inr (Val (3 + 1 / 2 ^ 51))"
proof -
  have s1: "binary64 (0 + 3) = 3" by (simp add: binary64_numeral)
  have "binary64 (3 + (3 + 1 / 2 ^ 51))
        = of_int (if even (6755399441055744::int) then 6755399441055744
                  else 6755399441055744 + 1) / 2 ^ 50"
    by (rule binary64_tie_pow) simp_all
  then have s2: "binary64 (3 + (3 + 1 / 2 ^ 51)) = 6" by simp
  have s: "sum_float64 binary64 [3, 3 + 1 / 2 ^ 51] = 6"
    by (simp only: sum_float64_def foldl_Cons foldl_Nil s1 s2)
  have p1: "binary64 (1 * 3) = 3" by (simp add: binary64_numeral)
  have "binary64 (3 * (3 + 1 / 2 ^ 51)) = of_int 5066549580791809 / 2 ^ 49"
    by (rule binary64_round_pow) simp_all
  then have p2: "binary64 (3 * (3 + 1 / 2 ^ 51)) = 9 + 1 / 2 ^ 49" by simp
  have p: "prod_float64 binary64 [3, 3 + 1 / 2 ^ 51] = 9 + 1 / 2 ^ 49"
    by (simp only: prod_float64_def foldl_Cons foldl_Nil p1 p2)
  have h: "binary64 (6 / 2) = 3" by (simp add: binary64_numeral)
  show "amean float64 (floats [3, 3 + 1 / 2 ^ 51]) = Val 3"
    unfolding amean_floats rnd_float64 s using h by simp
  have pw: "np_power float64 (9 + 1 / 2 ^ 49) (1 / 2) = Val (3 + 1 / 2 ^ 51)"
    using sqrt_above_nine by (simp add: np_power_def pwr_float64)
  show "gmean float64 (floats [3, 3 + 1 / 2 ^ 51]) = Inr (Val (3 + 1 / 2 ^ 51))"
    unfolding gmean_floats rnd_float64 p using pw by (simp add: py_truediv_def binary64_half)
qed



section \<open>The formula and the neutral point\<close>

text \<open>
  Claim C1 says that the combiner returns \<open>A + k * (G - c)\<close> for every nonempty sequence
  and all reals \<open>k\<close> and \<open>c\<close>. The code has no \<open>c\<close>: its neutral point is the literal 4,
  so that on \<open>(4, 4)\<close> with \<open>k = 1\<close> it returns 4, while the formula with \<open>c = 0\<close> gives 8.
  The code computes in doubles: on \<open>(4, 4, 4)\<close> it returns \<open>4 - 2^-51\<close>, not the 4 of the
  formula at \<open>c = 4\<close>. Its integer products wrap around: on sixteen scores of 16 the
  product \<open>2^64\<close> becomes 0 and the result is 12, not 28. And on \<open>(-1, 4)\<close>, whose product
  is negative, it returns no number at all.
\<close>

theorem mean_plus_gmean_formula_counterexample:
  "mean_plus_gmean float64 (ints [4, 4]) 1 = Inr (Val 4)
   \<and> combine_spec [4, 4] 1 0 = 8
   \<and> mean_plus_gmean float64 (ints [4, 4, 4]) 1 = Inr (Val (4 - 1 / 2 ^ 51))
   \<and> combine_spec [4, 4, 4] 1 4 = 4
   \<and> mean_plus_gmean float64 (ints (replicate 16 16)) 1 = Inr (Val 12)
   \<and> combine_spec (replicate 16 16) 1 4 = 28
   \<and> mean_plus_gmean float64 (ints [- 1, 4]) 1 = Inr NaN"
proof -
  have r2: "(16::real) powr (1 / 2) = 4" using powr_half_of_square [of 4] by simp
  have "((4::real) ^ 3) powr (1 / real 3) = 4" by (rule replicate_powr) simp_all
  then have r3: "(64::real) powr (1 / 3) = 4" by simp
  have 1: "mean_plus_gmean float64 (ints [4, 4]) 1 = Inr (Val 4)"
    by (simp only: mean_plus_gmean_float64_ints mean_plus_gmean_binary64_squares)
  have 2: "combine_spec [4, 4] 1 0 = 8" by (simp add: combine_spec_def r2)
  have 3: "mean_plus_gmean float64 (ints [4, 4, 4]) 1 = Inr (Val (4 - 1 / 2 ^ 51))"
    by (simp only: mean_plus_gmean_float64_ints mean_plus_gmean_binary64_444)
  have 4: "combine_spec [4, 4, 4] 1 4 = 4" by (simp add: combine_spec_def r3)
  show ?thesis
    using 1 2 3 4 mean_plus_gmean_float64_sixteen combine_spec_sixteen
      mean_plus_gmean_float64_neg_product(1)
    by (intro conjI)
qed

text \<open>
  Claim C1, amended. In exact arithmetic, for every nonempty sequence of real scores whose
  product is not negative and every real \<open>k\<close>, the combiner returns \<open>A + k * (G - 4)\<close>
  with \<open>A = sum / count\<close> and \<open>G = product^(1/count)\<close>: the specification's formula at
  the fixed neutral point 4. The program, on every nonempty tuple of Python ints whose sum
  and whose product fit in 64 bits, the product not negative, and with a weight \<open>k\<close> that is
  0 or between \<open>2^-900\<close> and \<open>2^900\<close> in size, returns a number \<open>R\<close> that differs from
  \<open>A + k * (G - 4)\<close> by at most \<open>(|A| + |k| * (G + 4)) / 2^45\<close>.
\<close>

theorem mean_plus_gmean_formula:
  "(xs \<noteq> [] \<and> 0 \<le> prod_list xs
      \<longrightarrow> mean_plus_gmean exact (floats xs) k = Inr (Val (combine_spec xs k 4)))
   \<and> (machine ar \<and> ws \<noteq> [] \<and> fits_int64 (sum_list (int_scores ws))
         \<and> 0 \<le> prod_list (int_scores ws) \<and> prod_list (int_scores ws) < 2 ^ 63
         \<and> moderate_weight k
      \<longrightarrow> (\<exists>R. mean_plus_gmean ar (ints ws) k = Inr (Val R)
             \<and> \<bar>R - combine_spec (real_scores ws) k 4\<bar>
                 \<le> (\<bar>sum_list (real_scores ws) / real (length ws)\<bar>
                      + \<bar>k\<bar> * (prod_list (real_scores ws) powr (1 / real (length ws)) + 4))
                     / 2 ^ 45))"
proof (intro conjI impI)
  assume "xs \<noteq> [] \<and> 0 \<le> prod_list xs"
  then show "mean_plus_gmean exact (floats xs) k = Inr (Val (combine_spec xs k 4))"
    by (simp add: mean_plus_gmean_ideal_spec)
next
  assume h: "machine ar \<and> ws \<noteq> [] \<and> fits_int64 (sum_list (int_scores ws))
         \<and> 0 \<le> prod_list (int_scores ws) \<and> prod_list (int_scores ws) < 2 ^ 63
         \<and> moderate_weight k"
  then have "machine ar" "ws \<noteq> []" "fits_int64 (sum_list (int_scores ws))"
    "0 \<le> prod_list (int_scores ws)" "prod_list (int_scores ws) < 2 ^ 63"
    by simp_all
  from program_close [OF this, of k]
  show "\<exists>R. mean_plus_gmean ar (ints ws) k = Inr (Val R)
             \<and> \<bar>R - combine_spec (real_scores ws) k 4\<bar>
                 \<le> (\<bar>sum_list (real_scores ws) / real (length ws)\<bar>
                      + \<bar>k\<bar> * (prod_list (real_scores ws) powr (1 / real (length ws)) + 4))
                     / 2 ^ 45"
    by blast
qed

theorem mean_plus_gmean_formula_witness:
  "[9, 12 :: real] \<noteq> [] \<and> (0::real) \<le> prod_list [9, 12]
   \<and> mean_plus_gmean exact (floats [9, 12]) 2 = Inr (Val (combine_spec [9, 12] 2 4))
   \<and> machine float64 \<and> [9, 12 :: 64 word] \<noteq> []
   \<and> fits_int64 (sum_list (int_scores [9, 12]))
   \<and> 0 \<le> prod_list (int_scores [9, 12]) \<and> prod_list (int_scores [9, 12]) < 2 ^ 63
   \<and> moderate_weight 2
   \<and> (\<exists>R. mean_plus_gmean float64 (ints [9, 12]) 2 = Inr (Val R)
          \<and> \<bar>R - combine_spec (real_scores [9, 12]) 2 4\<bar>
              \<le> (\<bar>sum_list (real_scores [9, 12]) / real (length [9, 12 :: 64 word])\<bar>
                   + \<bar>2\<bar> * (prod_list (real_scores [9, 12])
                              powr (1 / real (length [9, 12 :: 64 word])) + 4)) / 2 ^ 45)"
proof -
  have h: "fits_int64 (sum_list (int_scores [9, 12]))"
    "0 \<le> prod_list (int_scores [9, 12])" "prod_list (int_scores [9, 12]) < 2 ^ 63"
    "moderate_weight 2"
    by (simp_all add: fits_int64_def int_scores_def moderate_weight_def)
  have e: "mean_plus_gmean exact (floats [9, 12]) 2 = Inr (Val (combine_spec [9, 12] 2 4))"
    using mean_plus_gmean_formula [of "[9, 12]" 2] by simp
  have p: "\<exists>R. mean_plus_gmean float64 (ints [9, 12]) 2 = Inr (Val R)
          \<and> \<bar>R - combine_spec (real_scores [9, 12]) 2 4\<bar>
              \<le> (\<bar>sum_list (real_scores [9, 12]) / real (length [9, 12 :: 64 word])\<bar>
                   + \<bar>2\<bar> * (prod_list (real_scores [9, 12])
                              powr (1 / real (length [9, 12 :: 64 word])) + 4)) / 2 ^ 45"
    using mean_plus_gmean_formula [of _ 2 float64 "[9, 12]"] machine_float64 h by blast
  show ?thesis using e p h machine_float64 by simp
qed

text \<open>
  Claim C3 says that the callable takes the scores and two caller-supplied parameters
  \<open>k\<close> and \<open>c\<close>, with contract \<open>combine(scores, k, c)\<close>. The code's callable takes the
  scores and \<open>k\<close> only. On \<open>(3, 3)\<close> with \<open>k = 1\<close> it returns 2, whatever neutral
  point a caller has in mind; the contract with \<open>c = 3\<close> asks for 3. Nor does it meet the
  contract at \<open>c = 4\<close> to the last bit or on every tuple: on \<open>(4, 4, 4)\<close> it returns
  \<open>4 - 2^-51\<close> where \<open>combine\<close> is 4, and on sixteen scores of 16, whose product wraps
  around, it returns 12 where \<open>combine\<close> is 28.
\<close>

theorem mean_plus_gmean_contract_counterexample:
  "mean_plus_gmean float64 (ints [3, 3]) 1 = Inr (Val 2)
   \<and> combine_spec [3, 3] 1 3 = 3
   \<and> mean_plus_gmean float64 (ints [4, 4, 4]) default_k = Inr (Val (4 - 1 / 2 ^ 51))
   \<and> combine_spec [4, 4, 4] 1 4 = 4
   \<and> mean_plus_gmean float64 (ints (replicate 16 16)) default_k = Inr (Val 12)
   \<and> combine_spec (replicate 16 16) 1 4 = 28"
proof -
  have r2: "(9::real) powr (1 / 2) = 3" using powr_half_of_square [of 3] by simp
  have "((4::real) ^ 3) powr (1 / real 3) = 4" by (rule replicate_powr) simp_all
  then have r3: "(64::real) powr (1 / 3) = 4" by simp
  have 1: "mean_plus_gmean float64 (ints [3, 3]) 1 = Inr (Val 2)"
    by (simp only: mean_plus_gmean_float64_ints mean_plus_gmean_binary64_squares)
  have 2: "combine_spec [3, 3] 1 3 = 3" by (simp add: combine_spec_def r2)
  have 3: "mean_plus_gmean float64 (ints [4, 4, 4]) default_k = Inr (Val (4 - 1 / 2 ^ 51))"
    by (simp only: default_k_def mean_plus_gmean_float64_ints mean_plus_gmean_binary64_444)
  have 4: "combine_spec [4, 4, 4] 1 4 = 4" by (simp add: combine_spec_def r3)
  have 5: "mean_plus_gmean float64 (ints (replicate 16 16)) default_k = Inr (Val 12)"
    by (simp only: default_k_def mean_plus_gmean_float64_sixteen)
  show ?thesis using 1 2 3 4 5 combine_spec_sixteen by (intro conjI)
qed

text \<open>
  Claim C3, amended. The combiner is a single callable taking a variable-length list of
  numeric scores and one named parameter, the weight \<open>k\<close>, whose default is 1. The neutral
  point is not an input: it is the literal 4. In exact arithmetic, for a nonempty sequence
  with a product that is not negative and a weight other than 0, the call meets the
  contract \<open>combine(scores, k, c)\<close> exactly when \<open>c = 4\<close>. The program, on every nonempty
  tuple of Python ints whose sum and whose product fit in 64 bits, the product not
  negative, and with a weight that is 0 or between \<open>2^-900\<close> and \<open>2^900\<close> in size, returns
  a number \<open>R\<close> whose distance from \<open>combine(scores, k, c)\<close> is \<open>k * (c - 4)\<close> up to an error
  of at most \<open>(|A| + |k| * (G + 4)) / 2^45\<close>.
\<close>

theorem mean_plus_gmean_contract:
  "mean_plus_gmean ar ys default_k = mean_plus_gmean ar ys 1
   \<and> (xs \<noteq> [] \<and> 0 \<le> prod_list xs \<and> k \<noteq> 0
      \<longrightarrow> (mean_plus_gmean exact (floats xs) k = Inr (Val (combine_spec xs k c))
             \<longleftrightarrow> c = 4))
   \<and> (machine ar \<and> ws \<noteq> [] \<and> fits_int64 (sum_list (int_scores ws))
         \<and> 0 \<le> prod_list (int_scores ws) \<and> prod_list (int_scores ws) < 2 ^ 63
         \<and> moderate_weight k
      \<longrightarrow> (\<exists>R. mean_plus_gmean ar (ints ws) k = Inr (Val R)
             \<and> \<bar>R - combine_spec (real_scores ws) k c - k * (c - 4)\<bar>
                 \<le> (\<bar>sum_list (real_scores ws) / real (length ws)\<bar>
                      + \<bar>k\<bar> * (prod_list (real_scores ws) powr (1 / real (length ws)) + 4))
                     / 2 ^ 45))"
proof (intro conjI impI)
  show "mean_plus_gmean ar ys default_k = mean_plus_gmean ar ys 1"
    by (simp only: default_k_def)
next
  assume h: "xs \<noteq> [] \<and> 0 \<le> prod_list xs \<and> k \<noteq> 0"
  then have "combine_spec xs k 4 = combine_spec xs k c \<longleftrightarrow> c = 4"
    by (auto simp add: combine_spec_def Let_def)
  then show "mean_plus_gmean exact (floats xs) k = Inr (Val (combine_spec xs k c))
             \<longleftrightarrow> c = 4"
    using h by (simp add: mean_plus_gmean_ideal_spec)
next
  assume h: "machine ar \<and> ws \<noteq> [] \<and> fits_int64 (sum_list (int_scores ws))
         \<and> 0 \<le> prod_list (int_scores ws) \<and> prod_list (int_scores ws) < 2 ^ 63
         \<and> moderate_weight k"
  then have "machine ar" "ws \<noteq> []" "fits_int64 (sum_list (int_scores ws))"
    "0 \<le> prod_list (int_scores ws)" "prod_list (int_scores ws) < 2 ^ 63"
    by simp_all
  from program_close [OF this, of k]
  obtain R where R: "mean_plus_gmean ar (ints ws) k = Inr (Val R)"
    and b: "\<bar>R - combine_spec (real_scores ws) k 4\<bar>
                 \<le> (\<bar>sum_list (real_scores ws) / real (length ws)\<bar>
                      + \<bar>k\<bar> * (prod_list (real_scores ws) powr (1 / real (length ws)) + 4))
                     / 2 ^ 45"
    by blast
  have "combine_spec (real_scores ws) k c + k * (c - 4) = combine_spec (real_scores ws) k 4"
    by (simp add: combine_spec_def Let_def algebra_simps)
  then have eq: "R - combine_spec (real_scores ws) k c - k * (c - 4)
             = R - combine_spec (real_scores ws) k 4"
    by linarith
  have b': "\<bar>R - combine_spec (real_scores ws) k c - k * (c - 4)\<bar>
                 \<le> (\<bar>sum_list (real_scores ws) / real (length ws)\<bar>
                      + \<bar>k\<bar> * (prod_list (real_scores ws) powr (1 / real (length ws)) + 4))
                     / 2 ^ 45"
    unfolding eq by (rule b)
  show "\<exists>R. mean_plus_gmean ar (ints ws) k = Inr (Val R)
             \<and> \<bar>R - combine_spec (real_scores ws) k c - k * (c - 4)\<bar>
                 \<le> (\<bar>sum_list (real_scores ws) / real (length ws)\<bar>
                      + \<bar>k\<bar> * (prod_list (real_scores ws) powr (1 / real (length ws)) + 4))
                     / 2 ^ 45"
    using R b' by blast
qed

theorem mean_plus_gmean_contract_witness:
  "mean_plus_gmean float64 (ints [3, 5]) default_k = mean_plus_gmean float64 (ints [3, 5]) 1
   \<and> [3, 5 :: real] \<noteq> [] \<and> (0::real) \<le> prod_list [3, 5] \<and> (2::real) \<noteq> 0
   \<and> mean_plus_gmean exact (floats [3, 5]) 2 = Inr (Val (combine_spec [3, 5] 2 4))
   \<and> mean_plus_gmean exact (floats [3, 5]) 2 \<noteq> Inr (Val (combine_spec [3, 5] 2 5))
   \<and> machine float64 \<and> [3, 5 :: 64 word] \<noteq> []
   \<and> fits_int64 (sum_list (int_scores [3, 5]))
   \<and> 0 \<le> prod_list (int_scores [3, 5]) \<and> prod_list (int_scores [3, 5]) < 2 ^ 63
   \<and> moderate_weight 2
   \<and> (\<exists>R. mean_plus_gmean float64 (ints [3, 5]) 2 = Inr (Val R)
          \<and> \<bar>R - combine_spec (real_scores [3, 5]) 2 5 - 2 * (5 - 4)\<bar>
              \<le> (\<bar>sum_list (real_scores [3, 5]) / real (length [3, 5 :: 64 word])\<bar>
                   + \<bar>2\<bar> * (prod_list (real_scores [3, 5])
                              powr (1 / real (length [3, 5 :: 64 word])) + 4)) / 2 ^ 45)"
proof -
  have h: "fits_int64 (sum_list (int_scores [3, 5]))"
    "0 \<le> prod_list (int_scores [3, 5])" "prod_list (int_scores [3, 5]) < 2 ^ 63"
    "moderate_weight 2"
    by (simp_all add: fits_int64_def int_scores_def moderate_weight_def)
  note t4 = mean_plus_gmean_contract [of float64 "ints [3, 5]" "[3, 5]" 2 4 "[3, 5]"]
  note t5 = mean_plus_gmean_contract [of float64 "ints [3, 5]" "[3, 5]" 2 5 "[3, 5]"]
  have d: "mean_plus_gmean float64 (ints [3, 5]) default_k
           = mean_plus_gmean float64 (ints [3, 5]) 1"
    using t4 by blast
  have e4: "mean_plus_gmean exact (floats [3, 5]) 2 = Inr (Val (combine_spec [3, 5] 2 4))"
    using t4 by simp
  have e5: "mean_plus_gmean exact (floats [3, 5]) 2 \<noteq> Inr (Val (combine_spec [3, 5] 2 5))"
    using t5 by simp
  have p: "\<exists>R. mean_plus_gmean float64 (ints [3, 5]) 2 = Inr (Val R)
          \<and> \<bar>R - combine_spec (real_scores [3, 5]) 2 5 - 2 * (5 - 4)\<bar>
              \<le> (\<bar>sum_list (real_scores [3, 5]) / real (length [3, 5 :: 64 word])\<bar>
                   + \<bar>2\<bar> * (prod_list (real_scores [3, 5])
                              powr (1 / real (length [3, 5 :: 64 word])) + 4)) / 2 ^ 45"
    using t5 machine_float64 h by blast
  show ?thesis using d e4 e5 p h machine_float64 by simp
qed

text \<open>
  Claim C4 says that equal positive scores \<open>v\<close> give \<open>v + k * (v - c)\<close> for every \<open>c\<close>,
  so that scores all equal to \<open>c\<close> give \<open>c\<close>. With the neutral point fixed at 4 this
  fails for every other \<open>c\<close>: two scores of 5 give 6, not the 5 of the law at \<open>c = 5\<close>.
  At the neutral point 4 the law holds up to rounding only, and only while the product
  fits in 64 bits: three scores of 4 give \<open>4 - 2^-51\<close>, and sixteen scores of 16 give 12,
  not \<open>16 + 1 * (16 - 4) = 28\<close>.
\<close>

theorem mean_plus_gmean_equal_scores_counterexample:
  "mean_plus_gmean float64 (ints (replicate 2 5)) 1 = Inr (Val 6)
   \<and> (6::real) \<noteq> 5 + 1 * (5 - 5)
   \<and> mean_plus_gmean float64 (ints (replicate 3 4)) 1 = Inr (Val (4 - 1 / 2 ^ 51))
   \<and> (4 - 1 / 2 ^ 51 :: real) \<noteq> 4 + 1 * (4 - 4)
   \<and> mean_plus_gmean float64 (ints (replicate 16 16)) 1 = Inr (Val 12)
   \<and> (12::real) \<noteq> 16 + 1 * (16 - 4)"
proof -
  have l2: "replicate 2 (5 :: 64 word) = [5, 5]" by (simp add: numeral_eq_Suc)
  have l3: "replicate 3 (4 :: 64 word) = [4, 4, 4]" by (simp add: numeral_eq_Suc)
  have 1: "mean_plus_gmean float64 (ints (replicate 2 5)) 1 = Inr (Val 6)"
    by (simp only: l2 mean_plus_gmean_float64_ints mean_plus_gmean_binary64_squares)
  have 2: "mean_plus_gmean float64 (ints (replicate 3 4)) 1 = Inr (Val (4 - 1 / 2 ^ 51))"
    by (simp only: l3 mean_plus_gmean_float64_ints mean_plus_gmean_binary64_444)
  have 3: "(6::real) \<noteq> 5 + 1 * (5 - 5)" "(4 - 1 / 2 ^ 51 :: real) \<noteq> 4 + 1 * (4 - 4)"
    "(12::real) \<noteq> 16 + 1 * (16 - 4)"
    by simp_all
  show ?thesis using 1 2 3 mean_plus_gmean_float64_sixteen by (intro conjI)
qed

text \<open>
  Claim C4, amended. In exact arithmetic, for every nonempty sequence whose elements all
  equal the same positive value \<open>v\<close> and every \<open>k\<close>, the result is \<open>v + k * (v - 4)\<close>;
  in particular, if every score equals 4 the result is 4, for any \<open>k\<close>. The program, on
  \<open>n \<ge> 1\<close> copies of a positive Python int \<open>v\<close> with \<open>n * v\<close> and \<open>v^n\<close> below \<open>2^63\<close>, and
  with a weight that is 0 or between \<open>2^-900\<close> and \<open>2^900\<close> in size, returns a number
  that differs from \<open>v + k * (v - 4)\<close> by at most \<open>(v + |k| * (v + 4)) / 2^45\<close>.
\<close>

theorem mean_plus_gmean_equal_scores:
  "(0 < n \<and> 0 < v
      \<longrightarrow> mean_plus_gmean exact (floats (replicate n v)) k = Inr (Val (v + k * (v - 4)))
          \<and> mean_plus_gmean exact (floats (replicate n 4)) k = Inr (Val 4))
   \<and> (machine ar \<and> 0 < n \<and> 0 < sint w \<and> int n * sint w < 2 ^ 63 \<and> sint w ^ n < 2 ^ 63
         \<and> moderate_weight k
      \<longrightarrow> (\<exists>R. mean_plus_gmean ar (ints (replicate n w)) k = Inr (Val R)
             \<and> \<bar>R - (real_of_int (sint w) + k * (real_of_int (sint w) - 4))\<bar>
                 \<le> (real_of_int (sint w) + \<bar>k\<bar> * (real_of_int (sint w) + 4)) / 2 ^ 45))"
proof (intro conjI impI)
  assume h: "0 < n \<and> 0 < v"
  then show "mean_plus_gmean exact (floats (replicate n v)) k = Inr (Val (v + k * (v - 4)))"
    by (simp add: mean_plus_gmean_ideal_replicate del: map_replicate)
  show "mean_plus_gmean exact (floats (replicate n 4)) k = Inr (Val 4)"
    using h mean_plus_gmean_ideal_replicate [of n 4 k] by simp
next
  assume h: "machine ar \<and> 0 < n \<and> 0 < sint w \<and> int n * sint w < 2 ^ 63 \<and> sint w ^ n < 2 ^ 63
         \<and> moderate_weight k"
  define x where "x = sint w"
  define v where "v = real_of_int x"
  have n: "0 < n" and x0: "0 < x" using h by (simp_all add: x_def)
  have v0: "0 < v" using x0 by (simp add: v_def)
  have isc: "int_scores (replicate n w) = replicate n x" by (simp add: int_scores_def x_def)
  have rs: "real_scores (replicate n w) = replicate n v"
    by (simp add: real_scores_def x_def v_def)
  have s: "sum_list (replicate n x) = int n * x" by (simp add: sum_list_replicate)
  have p: "prod_list (replicate n x) = x ^ n" by (induction n) simp_all
  have sv: "sum_list (replicate n v) = real n * v" by (simp add: sum_list_replicate)
  have pv: "prod_list (replicate n v) = v ^ n" by (induction n) simp_all
  have m: "machine ar" using h by simp
  have ne: "replicate n w \<noteq> []" using n by simp
  have s0: "0 \<le> int n * x" using x0 by simp
  have s1: "int n * x < 2 ^ 63" using h by (simp add: x_def)
  have f: "fits_int64 (sum_list (int_scores (replicate n w)))"
    unfolding isc s fits_int64_def using s0 s1 by simp
  have p0: "0 \<le> prod_list (int_scores (replicate n w))" using x0 by (simp add: isc p)
  have p1: "prod_list (int_scores (replicate n w)) < 2 ^ 63" using h by (simp add: isc p x_def)
  have A: "sum_list (replicate n v) / real n = v" using n by (simp add: sv)
  have G: "prod_list (replicate n v) powr (1 / real n) = v"
    unfolding pv using n v0 by (rule replicate_powr)
  have c: "combine_spec (replicate n v) k 4 = v + k * (v - 4)"
    unfolding combine_spec_def Let_def length_replicate A G by (rule refl)
  from program_close [OF m ne f p0 p1, of k]
  obtain R where R: "mean_plus_gmean ar (ints (replicate n w)) k = Inr (Val R)"
    and b: "\<bar>R - combine_spec (real_scores (replicate n w)) k 4\<bar>
              \<le> (\<bar>sum_list (real_scores (replicate n w)) / real (length (replicate n w))\<bar>
                   + \<bar>k\<bar> * (prod_list (real_scores (replicate n w))
                               powr (1 / real (length (replicate n w))) + 4)) / 2 ^ 45"
    by blast
  have "\<bar>R - (v + k * (v - 4))\<bar> \<le> (v + \<bar>k\<bar> * (v + 4)) / 2 ^ 45"
    using b v0 unfolding rs c length_replicate A G by simp
  then show "\<exists>R. mean_plus_gmean ar (ints (replicate n w)) k = Inr (Val R)
             \<and> \<bar>R - (real_of_int (sint w) + k * (real_of_int (sint w) - 4))\<bar>
                 \<le> (real_of_int (sint w) + \<bar>k\<bar> * (real_of_int (sint w) + 4)) / 2 ^ 45"
    using R unfolding v_def x_def by blast
qed

theorem mean_plus_gmean_equal_scores_witness:
  "(0::nat) < 3 \<and> (0::real) < 7
   \<and> mean_plus_gmean exact (floats [7, 7, 7]) 2 = Inr (Val (7 + 2 * (7 - 4)))
   \<and> mean_plus_gmean exact (floats [4, 4, 4]) 2 = Inr (Val 4)
   \<and> machine float64 \<and> 0 < sint (7 :: 64 word) \<and> int 3 * sint (7 :: 64 word) < 2 ^ 63
   \<and> sint (7 :: 64 word) ^ 3 < 2 ^ 63 \<and> moderate_weight 2
   \<and> (\<exists>R. mean_plus_gmean float64 (ints [7, 7, 7]) 2 = Inr (Val R)
          \<and> \<bar>R - (7 + 2 * (7 - 4))\<bar> \<le> (7 + \<bar>2\<bar> * (7 + 4)) / 2 ^ 45)"
proof -
  have h: "0 < sint (7 :: 64 word)" "int 3 * sint (7 :: 64 word) < 2 ^ 63"
    "sint (7 :: 64 word) ^ 3 < 2 ^ 63" "moderate_weight 2"
    by (simp_all add: moderate_weight_def)
  note t = mean_plus_gmean_equal_scores [of 3 7 2 float64 7]
  have e: "mean_plus_gmean exact (floats [7, 7, 7]) 2 = Inr (Val (7 + 2 * (7 - 4)))"
    "mean_plus_gmean exact (floats [4, 4, 4]) 2 = Inr (Val 4)"
    using t by (simp_all add: numeral_3_eq_3)
  have p: "\<exists>R. mean_plus_gmean float64 (ints [7, 7, 7]) 2 = Inr (Val R)
          \<and> \<bar>R - (7 + 2 * (7 - 4))\<bar> \<le> (7 + \<bar>2\<bar> * (7 + 4)) / 2 ^ 45"
    using t machine_float64 h by (simp add: numeral_3_eq_3)
  show ?thesis using e p h machine_float64 by simp
qed

section \<open>The inequality of the means in the program\<close>

lemma real_scores_pos:
  assumes "\<forall>w\<in>set ws. 0 < sint w"
  shows "\<forall>x\<in>set (real_scores ws). 0 < x"
  using assms by (simp add: real_scores_def del: of_int_sint)

lemma am_gm_program:
  assumes m: "machine ar" and ne: "ws \<noteq> []" and pos: "\<forall>w\<in>set ws. 0 < sint w"
    and S: "sum_list (int_scores ws) < 2 ^ 63" and P: "prod_list (int_scores ws) < 2 ^ 63"
    and k: "0 \<le> k"
  shows "\<exists>A G R. amean ar (ints ws) = Val A \<and> gmean ar (ints ws) = Inr (Val G)
           \<and> mean_plus_gmean ar (ints ws) k = Inr (Val R)
           \<and> G \<le> A * (1 + 1 / 2 ^ 45)
           \<and> R \<le> A + k * (A - 4) + (A + k * (A + 4)) / 2 ^ 43"
proof -
  define A0 where "A0 = sum_list (real_scores ws) / real (length ws)"
  define G0 where "G0 = prod_list (real_scores ws) powr (1 / real (length ws))"
  have rne: "real_scores ws \<noteq> []" using ne by (simp add: real_scores_def)
  have rpos: "\<forall>x\<in>set (real_scores ws). 0 < x" using pos by (rule real_scores_pos)
  have ipos: "\<forall>x\<in>set (int_scores ws). 0 < x" using pos by (simp only: int_scores_pos)
  have "0 \<le> sum_list (int_scores ws)" using ipos by (intro sum_list_nonneg) auto
  then have fS: "fits_int64 (sum_list (int_scores ws))" using S by (simp add: fits_int64_def)
  have P1: "1 \<le> prod_list (int_scores ws)" using ipos by (rule prod_list_int_pos)
  then have P0: "0 \<le> prod_list (int_scores ws)" by simp
  have GA: "G0 \<le> A0"
    unfolding G0_def A0_def using gm_le_am [OF rne rpos] by (simp only: length_real_scores)
  have G00: "0 \<le> G0" by (simp add: G0_def)
  have A00: "0 \<le> A0" using GA G00 by simp
  from program_close [OF m ne fS P0 P, of k]
  obtain a g R where am: "amean ar (ints ws) = Val a" and gm: "gmean ar (ints ws) = Inr (Val g)"
    and r: "mean_plus_gmean ar (ints ws) k = Inr (Val R)"
    and ab: "\<bar>a - A0\<bar> \<le> 3 * \<bar>A0\<bar> / 2 ^ 53" and gb: "\<bar>g - G0\<bar> \<le> 133 * G0 / 2 ^ 53"
    and rb: "\<bar>R - combine_spec (real_scores ws) k 4\<bar> \<le> (\<bar>A0\<bar> + \<bar>k\<bar> * (G0 + 4)) / 2 ^ 45"
    unfolding A0_def G0_def by blast
  have cs: "combine_spec (real_scores ws) k 4 = A0 + k * (G0 - 4)"
    by (simp add: combine_spec_def A0_def G0_def length_real_scores)
  define uA where "uA = A0 / 2 ^ 53"
  define ua where "ua = a / 2 ^ 53"
  define e where "e = a / 2 ^ 45"
  define ka where "ka = k * a"
  define ke where "ke = ka / 2 ^ 45"
  define kk where "kk = k / 2 ^ 45"
  have uA: "0 \<le> uA" "1000 * uA \<le> A0" using A00 by (simp_all add: uA_def)
  have ab': "\<bar>a - A0\<bar> \<le> 3 * uA" using ab A00 by (simp add: uA_def)
  have "133 * G0 / 2 ^ 53 \<le> 133 * A0 / 2 ^ 53" using GA by (simp add: divide_right_mono)
  then have gb': "\<bar>g - G0\<bar> \<le> 133 * uA" using gb by (simp add: uA_def)
  have a0: "0 \<le> a" using ab' uA by linarith
  have d1: "A0 - a \<le> 3 * uA" and d2: "a - A0 \<le> 3 * uA" using ab' by linarith+
  have split: "uA = ua + (A0 - a) / 2 ^ 53" by (simp add: uA_def ua_def diff_divide_distrib)
  have "(A0 - a) / 2 ^ 53 \<le> (3 * uA) / 2 ^ 53" using d1 by (rule divide_right_mono) simp
  moreover have "(3 * uA) / 2 ^ 53 \<le> uA / 1000" using uA(1) by simp
  ultimately have u2: "1000 * uA \<le> 1000 * ua + uA" using split by linarith
  have ue: "256 * ua = e" by (simp add: ua_def e_def)
  have e0: "0 \<le> e" using a0 by (simp add: e_def)
  have g1: "g \<le> a * (1 + 1 / 2 ^ 45)"
  proof -
    have "g \<le> a + 136 * uA" using gb' GA d1 by linarith
    then have "g \<le> a + e" using u2 uA(1) ue by linarith
    moreover have "a * (1 + 1 / 2 ^ 45) = a + e" by (simp add: e_def algebra_simps)
    ultimately show ?thesis by (simp only:)
  qed
  have kA: "k * G0 \<le> k * A0" using GA k by (rule mult_left_mono)
  have A6: "A0 \<le> a + e / 32" using d1 u2 uA(1) ue by linarith
  have "k * A0 \<le> k * (a + e / 32)" using A6 k by (rule mult_left_mono)
  also have "\<dots> = ka + ke / 32" by (simp add: ka_def ke_def e_def algebra_simps)
  finally have kA6: "k * A0 \<le> ka + ke / 32" .
  have ke0: "0 \<le> ke" using k a0 by (simp add: ke_def ka_def)
  have kk0: "0 \<le> kk" using k by (simp add: kk_def)
  have "\<bar>A0\<bar> = A0" "\<bar>k\<bar> = k" using A00 k by simp_all
  then have "\<bar>R - (A0 + k * (G0 - 4))\<bar> \<le> (A0 + k * (G0 + 4)) / 2 ^ 45"
    using rb unfolding cs by (simp only:)
  then have rb1: "R \<le> A0 + k * (G0 - 4) + (A0 + k * (G0 + 4)) / 2 ^ 45" by linarith
  have x1: "k * (G0 - 4) = k * G0 - 4 * k" by (simp add: algebra_simps)
  have x2: "(A0 + k * (G0 + 4)) / 2 ^ 45 = A0 / 2 ^ 45 + (k * G0) / 2 ^ 45 + 4 * kk"
    by (simp add: kk_def algebra_simps add_divide_distrib)
  have x3: "A0 / 2 ^ 45 \<le> (a + e / 32) / 2 ^ 45" using A6 by (rule divide_right_mono) simp
  have x4: "(a + e / 32) / 2 ^ 45 \<le> e + e / 32"
  proof -
    have "(a + e / 32) / 2 ^ 45 = e + (e / 32) / 2 ^ 45" by (simp add: e_def add_divide_distrib)
    moreover have "(e / 32) / 2 ^ 45 \<le> e / 32" using e0 by simp
    ultimately show ?thesis by linarith
  qed
  have "k * G0 \<le> ka + ke / 32" using kA kA6 by linarith
  then have x5: "(k * G0) / 2 ^ 45 \<le> (ka + ke / 32) / 2 ^ 45"
    by (rule divide_right_mono) simp
  have x6: "(ka + ke / 32) / 2 ^ 45 \<le> ke + ke / 32"
  proof -
    have "(ka + ke / 32) / 2 ^ 45 = ke + (ke / 32) / 2 ^ 45"
      by (simp add: ke_def add_divide_distrib)
    moreover have "(ke / 32) / 2 ^ 45 \<le> ke / 32" using ke0 by simp
    ultimately show ?thesis by linarith
  qed
  have y1: "k * (a - 4) = ka - 4 * k" by (simp add: ka_def algebra_simps)
  have y2: "(a + k * (a + 4)) / 2 ^ 43 = 4 * e + 4 * ke + 16 * kk"
    by (simp add: e_def ke_def ka_def kk_def algebra_simps add_divide_distrib)
  have "R \<le> a + ka - 4 * k + 4 * e + 4 * ke + 16 * kk"
    using rb1 x1 x2 x3 x4 x5 x6 A6 kA kA6 e0 ke0 kk0 by linarith
  then have r1: "R \<le> a + k * (a - 4) + (a + k * (a + 4)) / 2 ^ 43"
    unfolding y1 y2 by linarith
  show ?thesis using am gm r g1 r1 by blast
qed

text \<open>
  Claim C7 says that for positive scores with an unequal pair the geometric mean is at most
  the arithmetic mean and that therefore, for \<open>k \<ge> 0\<close> and every \<open>c\<close>, the combined score
  is at most \<open>A + k * (A - c)\<close>. The bound holds for the code's neutral point only: on
  \<open>(2, 8)\<close> with \<open>k = 1\<close> the code returns 5, which is above the bound \<open>5 + 1 * (5 - 10)\<close>
  that \<open>c = 10\<close> would give. The inequality of the means holds up to rounding only: the
  doubles 3 and \<open>3 + 2^-51\<close> have arithmetic mean 3 and geometric mean \<open>3 + 2^-51\<close> in the
  program. And it needs a product that fits in 64 bits: on \<open>(2^32, 2^31)\<close> the product
  wraps around to \<open>-2^63\<close> and the geometric mean is \<open>nan\<close>.
\<close>

theorem am_gm_bound_counterexample:
  "amean float64 (ints [2, 8]) = Val 5
   \<and> mean_plus_gmean float64 (ints [2, 8]) 1 = Inr (Val 5)
   \<and> \<not> (5::real) \<le> 5 + 1 * (5 - 10)
   \<and> amean float64 (floats [3, 3 + 1 / 2 ^ 51]) = Val 3
   \<and> gmean float64 (floats [3, 3 + 1 / 2 ^ 51]) = Inr (Val (3 + 1 / 2 ^ 51))
   \<and> \<not> (3 + 1 / 2 ^ 51 :: real) \<le> 3
   \<and> gmean float64 (ints [4294967296, 2147483648]) = Inr NaN"
proof -
  have 1: "\<not> (5::real) \<le> 5 + 1 * (5 - 10)" "\<not> (3 + 1 / 2 ^ 51 :: real) \<le> 3" by simp_all
  show ?thesis
    using mean_plus_gmean_float64_2_8(1,3) 1 am_gm_float64_adjacent gmean_float64_wrap
    by (intro conjI)
qed

text \<open>
  Claim C7, amended. In exact arithmetic, for every sequence of positive scores with at
  least one pair of unequal values, the geometric mean is at most the arithmetic mean, and
  therefore for every \<open>k \<ge> 0\<close> the combined score is at most \<open>A + k * (A - 4)\<close>, where
  \<open>A\<close> is the arithmetic mean and 4 the neutral point of the code. The program, on every
  tuple of positive Python ints with an unequal pair whose sum and whose product are below
  \<open>2^63\<close>, and with a weight \<open>k \<ge> 0\<close> that is 0 or between \<open>2^-900\<close> and \<open>2^900\<close>,
  returns means \<open>A\<close> and \<open>G\<close> with \<open>G \<le> A * (1 + 2^-45)\<close> and a combined score of at most
  \<open>A + k * (A - 4) + (A + k * (A + 4)) / 2^43\<close>.
\<close>

theorem am_gm_bound:
  "((\<forall>x\<in>set xs. 0 < x) \<and> x1 \<in> set xs \<and> x2 \<in> set xs \<and> x1 \<noteq> x2 \<and> 0 \<le> k
      \<longrightarrow> (\<exists>A G R. amean exact (floats xs) = Val A \<and> gmean exact (floats xs) = Inr (Val G)
             \<and> mean_plus_gmean exact (floats xs) k = Inr (Val R)
             \<and> G \<le> A \<and> R \<le> A + k * (A - 4)))
   \<and> (machine ar \<and> (\<forall>w\<in>set ws. 0 < sint w) \<and> w1 \<in> set ws \<and> w2 \<in> set ws \<and> w1 \<noteq> w2
         \<and> sum_list (int_scores ws) < 2 ^ 63 \<and> prod_list (int_scores ws) < 2 ^ 63
         \<and> 0 \<le> k \<and> moderate_weight k
      \<longrightarrow> (\<exists>A G R. amean ar (ints ws) = Val A \<and> gmean ar (ints ws) = Inr (Val G)
             \<and> mean_plus_gmean ar (ints ws) k = Inr (Val R)
             \<and> G \<le> A * (1 + 1 / 2 ^ 45)
             \<and> R \<le> A + k * (A - 4) + (A + k * (A + 4)) / 2 ^ 43))"
proof (intro conjI impI)
  assume h: "(\<forall>x\<in>set xs. 0 < x) \<and> x1 \<in> set xs \<and> x2 \<in> set xs \<and> x1 \<noteq> x2 \<and> 0 \<le> k"
  then have pos: "\<forall>x\<in>set xs. 0 < x" and k: "0 \<le> k" by simp_all
  have ne: "xs \<noteq> []" using h by auto
  define A where "A = sum_list xs / real (length xs)"
  define G where "G = prod_list xs powr (1 / real (length xs))"
  have p: "0 \<le> prod_list xs" using prod_list_pos [OF pos] by simp
  have ga: "G \<le> A" unfolding A_def G_def by (rule gm_le_am [OF ne pos])
  have "k * (G - 4) \<le> k * (A - 4)" using ga k by (intro mult_left_mono) simp_all
  then have r: "A + k * (G - 4) \<le> A + k * (A - 4)" by simp
  have "amean exact (floats xs) = Val A" unfolding A_def by (rule amean_ideal [OF ne])
  moreover have "gmean exact (floats xs) = Inr (Val G)"
    unfolding G_def by (rule gmean_ideal_nonneg [OF ne p])
  moreover have "mean_plus_gmean exact (floats xs) k = Inr (Val (A + k * (G - 4)))"
    unfolding A_def G_def by (rule mean_plus_gmean_ideal_nonneg [OF ne p])
  ultimately show "\<exists>A G R. amean exact (floats xs) = Val A
             \<and> gmean exact (floats xs) = Inr (Val G)
             \<and> mean_plus_gmean exact (floats xs) k = Inr (Val R)
             \<and> G \<le> A \<and> R \<le> A + k * (A - 4)"
    using ga r by blast
next
  assume h: "machine ar \<and> (\<forall>w\<in>set ws. 0 < sint w) \<and> w1 \<in> set ws \<and> w2 \<in> set ws \<and> w1 \<noteq> w2
         \<and> sum_list (int_scores ws) < 2 ^ 63 \<and> prod_list (int_scores ws) < 2 ^ 63
         \<and> 0 \<le> k \<and> moderate_weight k"
  then have ne: "ws \<noteq> []" by auto
  from h have "machine ar" "ws \<noteq> []" "\<forall>w\<in>set ws. 0 < sint w"
    "sum_list (int_scores ws) < 2 ^ 63" "prod_list (int_scores ws) < 2 ^ 63" "0 \<le> k"
    using ne by simp_all
  then show "\<exists>A G R. amean ar (ints ws) = Val A \<and> gmean ar (ints ws) = Inr (Val G)
             \<and> mean_plus_gmean ar (ints ws) k = Inr (Val R)
             \<and> G \<le> A * (1 + 1 / 2 ^ 45)
             \<and> R \<le> A + k * (A - 4) + (A + k * (A + 4)) / 2 ^ 43"
    by (rule am_gm_program)
qed

theorem am_gm_bound_witness:
  "(0::real) < 3 \<and> (0::real) < 5 \<and> (3::real) \<in> set [3, 5] \<and> (5::real) \<in> set [3, 5]
   \<and> (3::real) \<noteq> 5 \<and> (0::real) \<le> 1
   \<and> (\<exists>A G R. amean exact (floats [3, 5]) = Val A \<and> gmean exact (floats [3, 5]) = Inr (Val G)
           \<and> mean_plus_gmean exact (floats [3, 5]) 1 = Inr (Val R)
           \<and> G \<le> A \<and> R \<le> A + 1 * (A - 4))
   \<and> machine float64 \<and> 0 < sint (3 :: 64 word) \<and> 0 < sint (5 :: 64 word)
   \<and> (3 :: 64 word) \<in> set [3, 5] \<and> (5 :: 64 word) \<in> set [3, 5] \<and> (3 :: 64 word) \<noteq> 5
   \<and> sum_list (int_scores [3, 5]) < 2 ^ 63 \<and> prod_list (int_scores [3, 5]) < 2 ^ 63
   \<and> moderate_weight 1
   \<and> (\<exists>A G R. amean float64 (ints [3, 5]) = Val A \<and> gmean float64 (ints [3, 5]) = Inr (Val G)
           \<and> mean_plus_gmean float64 (ints [3, 5]) 1 = Inr (Val R)
           \<and> G \<le> A * (1 + 1 / 2 ^ 45)
           \<and> R \<le> A + 1 * (A - 4) + (A + 1 * (A + 4)) / 2 ^ 43)"
proof -
  have h: "sum_list (int_scores [3, 5]) < 2 ^ 63" "prod_list (int_scores [3, 5]) < 2 ^ 63"
    "moderate_weight 1" "(3 :: 64 word) \<noteq> 5"
    by (simp_all add: int_scores_def moderate_weight_def)
  note t = am_gm_bound [of "[3, 5]" 3 5 1 float64 "[3, 5]" 3 5]
  have e: "\<exists>A G R. amean exact (floats [3, 5]) = Val A \<and> gmean exact (floats [3, 5]) = Inr (Val G)
           \<and> mean_plus_gmean exact (floats [3, 5]) 1 = Inr (Val R)
           \<and> G \<le> A \<and> R \<le> A + 1 * (A - 4)"
    using t by simp
  have p: "\<exists>A G R. amean float64 (ints [3, 5]) = Val A \<and> gmean float64 (ints [3, 5]) = Inr (Val G)
           \<and> mean_plus_gmean float64 (ints [3, 5]) 1 = Inr (Val R)
           \<and> G \<le> A * (1 + 1 / 2 ^ 45)
           \<and> R \<le> A + 1 * (A - 4) + (A + 1 * (A + 4)) / 2 ^ 43"
    using t machine_float64 h by simp
  show ?thesis using e p h machine_float64 by simp
qed

section \<open>No input validation\<close>

lemma prod_int64_zero:
  assumes "0 \<in> set ws"
  shows "prod_int64 ws = 0"
proof -
  have "prod_list ws = 0" using assms by (induction ws) auto
  then show ?thesis by (simp only: prod_int64_prod_list)
qed

lemma number_of_nonneg_prod:
  assumes rd: "monotone_rounding (rnd ar)" and ne: "ws \<noteq> []"
    and p: "0 \<le> sint (prod_int64 ws)"
  shows "\<exists>r. mean_plus_gmean ar (ints ws) k = Inr (Val r)"
proof -
  define b where "b = rnd ar (real_of_int (sint (prod_int64 ws)))"
  have ne': "ints ws \<noteq> []" using ne by simp
  have base: "to_float64 (rnd ar) (np_prod (rnd ar) (np_asarray (rnd ar) (ints ws))) = b"
    by (simp only: np_asarray_ints [OF ne] np_prod.simps to_float64.simps b_def)
  have "0 \<le> real_of_int (sint (prod_int64 ws))" unfolding of_int_0_le_iff by (rule p)
  then have b0: "0 \<le> b" unfolding b_def by (rule rounding_nonneg [OF rd])
  obtain a where a: "amean ar (ints ws) = Val a" using amean_nonempty [OF ne'] by blast
  have "\<exists>g. gmean ar (ints ws) = Inr (Val g)"
  proof (cases "b = 0")
    case True
    then show ?thesis using gmean_zero_base [OF rd ne'] base by simp
  next
    case False
    then have "0 < b" using b0 by simp
    then show ?thesis using gmean_pos_base [OF ne'] base by simp
  qed
  then obtain g where g: "gmean ar (ints ws) = Inr (Val g)" by blast
  show ?thesis using mean_plus_gmean_number [OF a g] by blast
qed

lemma zero_score:
  assumes rd: "monotone_rounding (rnd ar)" and z: "0 \<in> set ws"
  shows "mean_plus_gmean ar (ints ws) k =
           Inr (np_add (rnd ar) (amean ar (ints ws))
                  (np_mul (rnd ar) (Val k) (np_sub (rnd ar) (Val 0) (Val 4))))"
proof -
  have ne: "ws \<noteq> []" using z by auto
  have ne': "ints ws \<noteq> []" using ne by simp
  have z0: "rnd ar 0 = 0" using rd by (rule monotone_roundingD(3))
  have "to_float64 (rnd ar) (np_prod (rnd ar) (np_asarray (rnd ar) (ints ws))) = 0"
    by (simp add: np_asarray_ints [OF ne] prod_int64_zero [OF z] z0)
  then have "gmean ar (ints ws) = Inr (Val 0)" by (rule gmean_zero_base [OF rd ne'])
  then show ?thesis by (simp add: mean_plus_gmean_def)
qed

text \<open>
  Claim C8 says that \<open>mean_plus_gmean\<close> validates nothing and that on every nonempty
  sequence with zero or negative entries whose product is not negative it returns a real
  number. It validates nothing indeed; but the product of Python ints is computed in 64
  bits. The scores \<open>-2^32\<close> and \<open>-2^31\<close> have the product \<open>2^63\<close>, which wraps around to
  \<open>-2^63\<close>, and the call returns \<open>nan\<close>.
\<close>

theorem mean_plus_gmean_no_validation_counterexample:
  "ints [- 4294967296, - 2147483648] \<noteq> []
   \<and> 0 \<le> prod_list (int_scores [- 4294967296, - 2147483648])
   \<and> mean_plus_gmean float64 (ints [- 4294967296, - 2147483648]) 1 = Inr NaN"
  using prod_wraps(3) mean_plus_gmean_float64_wrap by simp

text \<open>
  Claim C8, amended. \<open>mean_plus_gmean\<close> validates nothing: no call with at least one score
  raises an exception. On a nonempty tuple of Python ints, with a weight of size at most
  \<open>2^900\<close>, it returns a number whenever the product that \<open>np.prod\<close> computes in 64 bits is
  not negative, which is the case when the product of the scores is not negative and fits
  in 64 bits; \<open>mean_plus_gmean(-3, -3)\<close> returns \<open>-4\<close>; and a tuple of Python ints that
  contains 0 has geometric mean 0 and gives the arithmetic mean plus \<open>k * (0 - 4)\<close>,
  computed in doubles. This holds for every power function and under every rounding that
  preserves order.
\<close>

theorem mean_plus_gmean_no_validation:
  assumes rd: "monotone_rounding (rnd ar)"
  shows "(xs \<noteq> [] \<longrightarrow> (\<exists>v. mean_plus_gmean ar xs k = Inr v))
       \<and> (ws \<noteq> [] \<and> 0 \<le> sint (prod_int64 ws) \<and> \<bar>k\<bar> \<le> 2 ^ 900
            \<longrightarrow> (\<exists>r. mean_plus_gmean ar (ints ws) k = Inr (Val r)))
       \<and> (ws \<noteq> [] \<and> 0 \<le> prod_list (int_scores ws) \<and> prod_list (int_scores ws) < 2 ^ 63
             \<and> \<bar>k\<bar> \<le> 2 ^ 900
            \<longrightarrow> (\<exists>r. mean_plus_gmean ar (ints ws) k = Inr (Val r)))
       \<and> (0 \<in> set ws \<and> \<bar>k\<bar> \<le> 2 ^ 900
            \<longrightarrow> mean_plus_gmean ar (ints ws) k =
                  Inr (np_add (rnd ar) (amean ar (ints ws))
                         (np_mul (rnd ar) (Val k) (np_sub (rnd ar) (Val 0) (Val 4)))))
       \<and> mean_plus_gmean float64 (ints [- 3, - 3]) 1 = Inr (Val (- 4))"
proof (intro conjI impI)
  assume "xs \<noteq> []"
  then show "\<exists>v. mean_plus_gmean ar xs k = Inr v" by (rule mean_plus_gmean_nonempty_returns)
next
  assume "ws \<noteq> [] \<and> 0 \<le> sint (prod_int64 ws) \<and> \<bar>k\<bar> \<le> 2 ^ 900"
  then show "\<exists>r. mean_plus_gmean ar (ints ws) k = Inr (Val r)"
    using number_of_nonneg_prod [OF rd] by blast
next
  assume h: "ws \<noteq> [] \<and> 0 \<le> prod_list (int_scores ws) \<and> prod_list (int_scores ws) < 2 ^ 63
             \<and> \<bar>k\<bar> \<le> 2 ^ 900"
  then have "fits_int64 (prod_list (int_scores ws))" by (simp add: fits_int64_def)
  then have "sint (prod_int64 ws) = prod_list (int_scores ws)" by (rule prod_int64_exact)
  then have "0 \<le> sint (prod_int64 ws)" using h by simp
  then show "\<exists>r. mean_plus_gmean ar (ints ws) k = Inr (Val r)"
    using number_of_nonneg_prod [OF rd] h by blast
next
  assume "0 \<in> set ws \<and> \<bar>k\<bar> \<le> 2 ^ 900"
  then show "mean_plus_gmean ar (ints ws) k =
                  Inr (np_add (rnd ar) (amean ar (ints ws))
                         (np_mul (rnd ar) (Val k) (np_sub (rnd ar) (Val 0) (Val 4))))"
    using zero_score [OF rd] by blast
next
  show "mean_plus_gmean float64 (ints [- 3, - 3]) 1 = Inr (Val (- 4))"
    by (rule mean_plus_gmean_float64_neg_number)
qed

theorem mean_plus_gmean_no_validation_witness:
  "monotone_rounding (rnd float64)
   \<and> ints [- 2, 0, - 8] \<noteq> [] \<and> [- 2, 0, - 8 :: 64 word] \<noteq> []
   \<and> 0 \<le> sint (prod_int64 [- 2, 0, - 8])
   \<and> 0 \<le> prod_list (int_scores [- 2, 0, - 8]) \<and> prod_list (int_scores [- 2, 0, - 8]) < 2 ^ 63
   \<and> (0 :: 64 word) \<in> set [- 2, 0, - 8] \<and> \<bar>1 :: real\<bar> \<le> 2 ^ 900
   \<and> (\<exists>v. mean_plus_gmean float64 (ints [- 2, 0, - 8]) 1 = Inr v)
   \<and> (\<exists>r. mean_plus_gmean float64 (ints [- 2, 0, - 8]) 1 = Inr (Val r))
   \<and> mean_plus_gmean float64 (ints [- 2, 0, - 8]) 1 =
        Inr (np_add (rnd float64) (amean float64 (ints [- 2, 0, - 8]))
               (np_mul (rnd float64) (Val 1) (np_sub (rnd float64) (Val 0) (Val 4))))
   \<and> mean_plus_gmean float64 (ints [- 3, - 3]) 1 = Inr (Val (- 4))"
proof -
  have mr: "monotone_rounding (rnd float64)"
    by (simp only: rnd_float64 monotone_rounding_binary64)
  have h: "[- 2, 0, - 8 :: 64 word] \<noteq> []" "0 \<le> sint (prod_int64 [- 2, 0, - 8])"
    "0 \<le> prod_list (int_scores [- 2, 0, - 8])" "prod_list (int_scores [- 2, 0, - 8]) < 2 ^ 63"
    "(0 :: 64 word) \<in> set [- 2, 0, - 8]" "\<bar>1 :: real\<bar> \<le> 2 ^ 900"
    by (simp_all add: prod_int64_def int_scores_def)
  have ne: "ints [- 2, 0, - 8] \<noteq> []" by simp
  note t = mean_plus_gmean_no_validation [OF mr, of "ints [- 2, 0, - 8]" 1 "[- 2, 0, - 8]"]
  have 1: "\<exists>v. mean_plus_gmean float64 (ints [- 2, 0, - 8]) 1 = Inr v" using t ne by blast
  have 2: "\<exists>r. mean_plus_gmean float64 (ints [- 2, 0, - 8]) 1 = Inr (Val r)"
    using t h by blast
  have 3: "mean_plus_gmean float64 (ints [- 2, 0, - 8]) 1 =
        Inr (np_add (rnd float64) (amean float64 (ints [- 2, 0, - 8]))
               (np_mul (rnd float64) (Val 1) (np_sub (rnd float64) (Val 0) (Val 4))))"
    using t h by blast
  have 4: "mean_plus_gmean float64 (ints [- 3, - 3]) 1 = Inr (Val (- 4))" using t by blast
  show ?thesis using mr h ne 1 2 3 4 by (intro conjI)
qed

section \<open>Raising one score\<close>




section \<open>No rejection of zero or negative scores\<close>




section \<open>Symmetry\<close>

text \<open>
  The literals \<open>0.1\<close> and \<open>7.3\<close> are the doubles \<open>binary64 (1/10)\<close> and
  \<open>binary64 (73/10)\<close>. Added from the left, \<open>0.1 + 0.1 + 7.3\<close> is \<open>7.5\<close>, while
  \<open>7.3 + 0.1 + 0.1\<close> is the double below \<open>7.5\<close>.
\<close>

lemma sum_float64_small_first:
  defines "a \<equiv> 7205759403792794 / 2 ^ 56" and "c \<equiv> 8219069319951155 / 2 ^ 50"
  shows "sum_float64 binary64 [a, a, c] = 15 / 2"
proof -
  have r1: "binary64 (0 + a) = a"
    using binary64_round_pow [where p = 56 and x = a and m = 7205759403792794] by (simp add: a_def)
  have r2: "binary64 (a + a) = a + a"
    using binary64_round_pow [where p = 55 and x = "a + a" and m = 7205759403792794] by (simp add: a_def)
  have r3: "binary64 (a + a + c) = 15 / 2"
    using binary64_round_pow [where p = 50 and x = "a + a + c" and m = 8444249301319680] by (simp add: a_def c_def)
  show ?thesis
    by (simp only: sum_float64_def foldl_Cons foldl_Nil r1 r2 r3)
qed

lemma sum_float64_large_first:
  defines "a \<equiv> 7205759403792794 / 2 ^ 56" and "c \<equiv> 8219069319951155 / 2 ^ 50"
  shows "sum_float64 binary64 [c, a, a] = 8444249301319679 / 2 ^ 50"
proof -
  define t :: real where "t = 8331659310635417 / 2 ^ 50"
  have r1: "binary64 (0 + c) = c"
    using binary64_round_pow [where p = 50 and x = c and m = 8219069319951155] by (simp add: c_def)
  have r2: "binary64 (c + a) = t"
    using binary64_round_pow [where p = 50 and x = "c + a" and m = 8331659310635417] by (simp add: a_def c_def t_def)
  have r3: "binary64 (t + a) = 8444249301319679 / 2 ^ 50"
    using binary64_round_pow [where p = 50 and x = "t + a" and m = 8444249301319679] by (simp add: a_def t_def)
  show ?thesis
    by (simp only: sum_float64_def foldl_Cons foldl_Nil r1 r2 r3)
qed

lemma mean_plus_gmean_weight_zero:
  assumes rd: "monotone_rounding (rnd ar)" and ne: "xs \<noteq> []" and p: "0 \<le> prod_list xs"
  shows "mean_plus_gmean ar (floats xs) 0
           = Inr (Val (rnd ar (rnd ar (sum_float64 (rnd ar) xs / real (length xs)))))"
proof -
  have z: "rnd ar 0 = 0" by (rule monotone_roundingD(3) [OF rd])
  have ne': "floats xs \<noteq> []" using ne by simp
  have base: "to_float64 (rnd ar) (np_prod (rnd ar) (np_asarray (rnd ar) (floats xs)))
                = prod_float64 (rnd ar) xs"
    by (simp add: np_asarray_floats)
  have b0: "0 \<le> prod_float64 (rnd ar) xs" using prod_float64_sign(1) [OF rd p] .
  have "\<exists>g. gmean ar (floats xs) = Inr (Val g)"
  proof (cases "prod_float64 (rnd ar) xs = 0")
    case True
    then show ?thesis using gmean_zero_base [OF rd ne'] base by simp
  next
    case False
    then have "0 < prod_float64 (rnd ar) xs" using b0 by simp
    then show ?thesis using gmean_pos_base [OF ne'] base by simp
  qed
  then obtain g where g: "gmean ar (floats xs) = Inr (Val g)" by blast
  have a: "amean ar (floats xs) = Val (rnd ar (sum_float64 (rnd ar) xs / real (length xs)))"
    using ne by (simp add: amean_floats)
  show ?thesis unfolding mean_plus_gmean_number [OF a g] by (simp add: z)
qed

text \<open>
  Claim C6 says that the result of the combiner is the same on every permutation of the
  scores, for all \<open>k\<close>. In binary64 the sum depends on the order: with \<open>k = 0\<close> the call
  \<open>mean_plus_gmean(0.1, 0.1, 7.3)\<close> returns \<open>2.5\<close> and the call
  \<open>mean_plus_gmean(7.3, 0.1, 0.1)\<close> returns \<open>2.5 - 1/2^51\<close>, printed as
  \<open>2.4999999999999996\<close>.
\<close>

theorem mean_plus_gmean_permutation_counterexample:
  "mset [binary64 (1 / 10), binary64 (1 / 10), binary64 (73 / 10)]
     = mset [binary64 (73 / 10), binary64 (1 / 10), binary64 (1 / 10)]
   \<and> mean_plus_gmean float64
        (floats [binary64 (1 / 10), binary64 (1 / 10), binary64 (73 / 10)]) 0
       = Inr (Val (5 / 2))
   \<and> mean_plus_gmean float64
        (floats [binary64 (73 / 10), binary64 (1 / 10), binary64 (1 / 10)]) 0
       = Inr (Val (5 / 2 - 1 / 2 ^ 51))"
proof -
  define a :: real where "a = 7205759403792794 / 2 ^ 56"
  define c :: real where "c = 8219069319951155 / 2 ^ 50"
  have fa: "binary64 (1 / 10) = a" unfolding a_def by (rule binary64_tenth)
  have fc: "binary64 (73 / 10) = c" unfolding c_def by (rule binary64_seven_three)
  have ac: "0 < a" "0 < c" by (simp_all add: a_def c_def)
  have rd: "monotone_rounding (rnd float64)"
    by (simp only: rnd_float64 monotone_rounding_binary64)
  have s1: "sum_float64 binary64 [a, a, c] = 15 / 2"
    unfolding a_def c_def by (rule sum_float64_small_first)
  have s2: "sum_float64 binary64 [c, a, a] = 8444249301319679 / 2 ^ 50"
    unfolding a_def c_def by (rule sum_float64_large_first)
  have h: "binary64 (5 / 2) = 5 / 2"
    using binary64_round_pow [where p = 51 and x = "5 / 2" and m = 5629499534213120] by simp
  have q: "binary64 (8444249301319679 / 2 ^ 50 / 3) = 5 / 2 - 1 / 2 ^ 51"
    using binary64_round_pow [where p = 51 and x = "8444249301319679 / 2 ^ 50 / 3" and m = 5629499534213119] by simp
  have q': "binary64 (5 / 2 - 1 / 2 ^ 51) = 5 / 2 - 1 / 2 ^ 51"
    using binary64_round_pow [where p = 51 and x = "5 / 2 - 1 / 2 ^ 51" and m = 5629499534213119] by simp
  have "mean_plus_gmean float64 (floats [a, a, c]) 0
        = Inr (Val (rnd float64 (rnd float64
            (sum_float64 (rnd float64) [a, a, c] / real (length [a, a, c])))))"
    using ac by (intro mean_plus_gmean_weight_zero [OF rd]) simp_all
  also have "real (length [a, a, c]) = 3" by simp
  also have "rnd float64 = binary64" by (rule rnd_float64)
  also have "sum_float64 binary64 [a, a, c] / 3 = 5 / 2" unfolding s1 by simp
  finally have m1: "mean_plus_gmean float64 (floats [a, a, c]) 0 = Inr (Val (5 / 2))"
    by (simp only: h)
  have "mean_plus_gmean float64 (floats [c, a, a]) 0
        = Inr (Val (rnd float64 (rnd float64
            (sum_float64 (rnd float64) [c, a, a] / real (length [c, a, a])))))"
    using ac by (intro mean_plus_gmean_weight_zero [OF rd]) simp_all
  also have "real (length [c, a, a]) = 3" by simp
  also have "rnd float64 = binary64" by (rule rnd_float64)
  finally have m2: "mean_plus_gmean float64 (floats [c, a, a]) 0
                      = Inr (Val (5 / 2 - 1 / 2 ^ 51))"
    by (simp only: s2 q q')
  have "mset [a, a, c] = mset [c, a, a]" by (simp add: add_mset_commute)
  then show ?thesis using m1 m2 by (simp only: fa fc simp_thms)
qed

lemma foldl_add_binary64_nat:
  assumes "a + sum_list ns < 2 ^ 53"
  shows "foldl (\<lambda>acc x. binary64 (acc + x)) (real a) (map real ns) = real (a + sum_list ns)"
  using assms
proof (induction ns arbitrary: a)
  case Nil
  then show ?case by simp
next
  case (Cons n ns)
  have "int (a + n) < 2 ^ 53" using Cons.prems by simp
  then have "binary64 (of_int (int (a + n))) = of_int (int (a + n))"
    by (intro binary64_int) simp
  then have step: "binary64 (real a + real n) = real (a + n)" by simp
  have "a + n + sum_list ns < 2 ^ 53" using Cons.prems by (simp add: add.assoc)
  then show ?case using Cons.IH [of "a + n"] by (simp add: step add.assoc)
qed

lemma foldl_mul_binary64_nat:
  assumes "\<forall>n\<in>set ns. 0 < n" and "a * prod_list ns < 2 ^ 53"
  shows "foldl (\<lambda>acc x. binary64 (acc * x)) (real a) (map real ns) = real (a * prod_list ns)"
  using assms
proof (induction ns arbitrary: a)
  case Nil
  then show ?case by simp
next
  case (Cons n ns)
  have rest: "\<forall>m\<in>set ns. 0 < m" using Cons.prems(1) by simp
  have "0 < prod_list ns" using rest by (induction ns) simp_all
  then have "a * n \<le> a * n * prod_list ns" by simp
  moreover have e: "a * prod_list (n # ns) = a * n * prod_list ns" by (simp add: mult.assoc)
  ultimately have "a * n < 2 ^ 53" using Cons.prems(2) by linarith
  then have "int (a * n) < 2 ^ 53" by (metis of_nat_less_iff of_nat_numeral of_nat_power)
  then have "binary64 (of_int (int (a * n))) = of_int (int (a * n))"
    by (intro binary64_int) simp
  then have step: "binary64 (real a * real n) = real (a * n)" by simp
  have "a * n * prod_list ns < 2 ^ 53" using Cons.prems(2) unfolding e .
  then show ?case using Cons.IH [OF rest, of "a * n"] by (simp add: step mult.assoc)
qed

lemma sum_float64_binary64_nat:
  assumes "sum_list ns < 2 ^ 53"
  shows "sum_float64 binary64 (map real ns) = real (sum_list ns)"
  using foldl_add_binary64_nat [of 0 ns] assms by (simp add: sum_float64_def)

lemma prod_float64_binary64_nat:
  assumes "\<forall>n\<in>set ns. 0 < n" and "prod_list ns < 2 ^ 53"
  shows "prod_float64 binary64 (map real ns) = real (prod_list ns)"
  using foldl_mul_binary64_nat [of ns 1] assms by (simp add: prod_float64_def)

lemma word_list_permutation:
  fixes ws vs :: "64 word list"
  assumes m: "mset ws = mset vs"
  shows "length ws = length vs" and "sum_int64 ws = sum_int64 vs"
    and "prod_int64 ws = prod_int64 vs"
proof -
  show "length ws = length vs" using m by (rule mset_eq_length)
  have "sum_mset (mset ws) = sum_mset (mset vs)" using m by simp
  then show "sum_int64 ws = sum_int64 vs" by (simp only: sum_int64_sum_list sum_mset_sum_list)
  have "prod_mset (mset ws) = prod_mset (mset vs)" using m by simp
  then show "prod_int64 ws = prod_int64 vs"
    by (simp only: prod_int64_prod_list prod_mset_prod_list)
qed

text \<open>
  Claim C6, amended. In exact arithmetic the result of the combiner, for every weight
  \<open>k\<close> (and the fixed neutral point), is the same on every permutation of the scores, error
  and \<open>nan\<close> included. In binary64 it is the same, bit for bit, on every permutation of
  positive whole-number scores whose sum and product are below \<open>2^53\<close>, as in all the
  calls of the notebook, and on every permutation of a tuple of Python ints (whose sum and
  product are computed in 64-bit integers, where the order does not matter); on other
  scores a permutation can change the last place.
\<close>

theorem mean_plus_gmean_permutation:
  "(mset xs = mset ys
      \<longrightarrow> mean_plus_gmean exact (floats xs) k = mean_plus_gmean exact (floats ys) k)
   \<and> (mset ns = mset ms \<and> (\<forall>n\<in>set ns. 0 < n) \<and> sum_list ns < 2 ^ 53 \<and> prod_list ns < 2 ^ 53
        \<longrightarrow> mean_plus_gmean float64 (floats (map real ns)) k
            = mean_plus_gmean float64 (floats (map real ms)) k)
   \<and> (mset ws = mset vs \<longrightarrow> mean_plus_gmean ar (ints ws) k = mean_plus_gmean ar (ints vs) k)"
proof (intro conjI impI)
  assume m: "mset xs = mset ys"
  have len: "length xs = length ys" using m by (rule mset_eq_length)
  have "sum_mset (mset xs) = sum_mset (mset ys)" using m by simp
  then have s: "sum_list xs = sum_list ys" by (simp only: sum_mset_sum_list)
  have "prod_mset (mset xs) = prod_mset (mset ys)" using m by simp
  then have p: "prod_list xs = prod_list ys" by (simp only: prod_mset_prod_list)
  have a: "amean exact (floats xs) = amean exact (floats ys)"
    by (simp only: amean_ideal_all len s)
  have g: "gmean exact (floats xs) = gmean exact (floats ys)"
    by (simp only: gmean_ideal_all len p)
  show "mean_plus_gmean exact (floats xs) k = mean_plus_gmean exact (floats ys) k"
    by (simp only: mean_plus_gmean_def a g)
next
  assume h: "mset ns = mset ms \<and> (\<forall>n\<in>set ns. 0 < n) \<and> sum_list ns < 2 ^ 53
             \<and> prod_list ns < 2 ^ 53"
  then have m: "mset ns = mset ms" by simp
  have len: "length ns = length ms" using m by (rule mset_eq_length)
  have "sum_mset (mset ns) = sum_mset (mset ms)" using m by simp
  then have s: "sum_list ns = sum_list ms" by (simp only: sum_mset_sum_list)
  have "prod_mset (mset ns) = prod_mset (mset ms)" using m by simp
  then have p: "prod_list ns = prod_list ms" by (simp only: prod_mset_prod_list)
  have "set ns = set ms" using m by (rule mset_eq_setD)
  then have pos: "\<forall>n\<in>set ms. 0 < n" using h by simp
  have S: "sum_float64 binary64 (map real ns) = sum_float64 binary64 (map real ms)"
    using h s by (simp add: sum_float64_binary64_nat)
  have P: "prod_float64 binary64 (map real ns) = prod_float64 binary64 (map real ms)"
    using h p pos by (simp add: prod_float64_binary64_nat)
  have e: "map real ns = [] \<longleftrightarrow> map real ms = []" using len by auto
  show "mean_plus_gmean float64 (floats (map real ns)) k
            = mean_plus_gmean float64 (floats (map real ms)) k"
    unfolding mean_plus_gmean_def amean_floats gmean_floats rnd_float64 length_map S P len e
    by (rule refl)
next
  assume m: "mset ws = mset vs"
  note w = word_list_permutation [OF m]
  have e: "ws = [] \<longleftrightarrow> vs = []" using w(1) by auto
  have a: "amean ar (ints ws) = amean ar (ints vs)"
    by (simp only: amean_ints w e)
  have g: "gmean ar (ints ws) = gmean ar (ints vs)"
  proof (cases "ws = []")
    case True
    then show ?thesis using e by simp
  next
    case False
    then have "vs \<noteq> []" using e by simp
    then show ?thesis by (simp only: gmean_ints [OF False] gmean_ints [OF \<open>vs \<noteq> []\<close>] w)
  qed
  show "mean_plus_gmean ar (ints ws) k = mean_plus_gmean ar (ints vs) k"
    by (simp only: mean_plus_gmean_def a g)
qed

theorem mean_plus_gmean_permutation_witness:
  "mset [9, 12, 4 :: real] = mset [4, 9, 12]
   \<and> mean_plus_gmean exact (floats [9, 12, 4]) 1 = mean_plus_gmean exact (floats [4, 9, 12]) 1
   \<and> mset [9, 12, 4 :: nat] = mset [4, 9, 12]
   \<and> (0::nat) < 9 \<and> (0::nat) < 12 \<and> (0::nat) < 4
   \<and> sum_list [9, 12, 4 :: nat] < 2 ^ 53 \<and> prod_list [9, 12, 4 :: nat] < 2 ^ 53
   \<and> mean_plus_gmean float64 (floats (map real [9, 12, 4])) 1
       = mean_plus_gmean float64 (floats (map real [4, 9, 12])) 1
   \<and> mset [9, 12, 4 :: 64 word] = mset [4, 9, 12]
   \<and> mean_plus_gmean float64 (ints [9, 12, 4]) 1 = mean_plus_gmean float64 (ints [4, 9, 12]) 1"
proof -
  have m: "mset [9, 12, 4 :: real] = mset [4, 9, 12]" by (simp add: add_mset_commute)
  have n: "mset [9, 12, 4 :: nat] = mset [4, 9, 12]" by (simp add: add_mset_commute)
  have w: "mset [9, 12, 4 :: 64 word] = mset [4, 9, 12]" by (simp add: add_mset_commute)
  have h: "(0::nat) < 9" "(0::nat) < 12" "(0::nat) < 4"
    "sum_list [9, 12, 4 :: nat] < 2 ^ 53" "prod_list [9, 12, 4 :: nat] < 2 ^ 53"
    by simp_all
  have h': "\<forall>n\<in>set [9, 12, 4 :: nat]. 0 < n" by simp
  note t = mean_plus_gmean_permutation [of "[9, 12, 4]" "[4, 9, 12]" 1 "[9, 12, 4]" "[4, 9, 12]"
      "[9, 12, 4]" "[4, 9, 12]" float64]
  have 1: "mean_plus_gmean exact (floats [9, 12, 4]) 1
             = mean_plus_gmean exact (floats [4, 9, 12]) 1"
    using t m by blast
  have 2: "mean_plus_gmean float64 (floats (map real [9, 12, 4])) 1
       = mean_plus_gmean float64 (floats (map real [4, 9, 12])) 1"
    using t n h' h(4,5) by blast
  have 3: "mean_plus_gmean float64 (ints [9, 12, 4]) 1
             = mean_plus_gmean float64 (ints [4, 9, 12]) 1"
    using t w by blast
  show ?thesis using m 1 n h 2 w 3 by (intro conjI)
qed

section \<open>The values of the notebook\<close>

text \<open>
  Claim C5 says that with \<open>k = 1\<close> the combiner returns exactly 4.0 on \<open>[4,4,4]\<close> and
  exactly 6.0 on \<open>[5,5,5]\<close>, among others. The code computes in binary64: on
  \<open>[4, 4, 4]\<close> it returns \<open>4 - 1/2^51\<close> and on \<open>[5, 5, 5]\<close> it returns \<open>6 - 1/2^50\<close>,
  which are the \<open>3.9999999999999996\<close> and the \<open>5.999999999999999\<close> that the notebook
  records for these calls, not 4 and 6.
\<close>

theorem mean_plus_gmean_notebook_values_counterexample:
  "mean_plus_gmean float64 (ints [4, 4, 4]) default_k = Inr (Val (4 - 1 / 2 ^ 51))
   \<and> mean_plus_gmean float64 (ints [4, 4, 4]) default_k \<noteq> Inr (Val 4)
   \<and> mean_plus_gmean float64 (ints [5, 5, 5]) default_k = Inr (Val (6 - 1 / 2 ^ 50))
   \<and> mean_plus_gmean float64 (ints [5, 5, 5]) default_k \<noteq> Inr (Val 6)"
  unfolding default_k_def mean_plus_gmean_float64_ints
  by (simp add: mean_plus_gmean_binary64_444 mean_plus_gmean_binary64_555 del: list.map)

text \<open>
  Claim C5, amended. With the default weight \<open>k = 1\<close> (and the neutral point 4), in
  binary64 arithmetic the combiner returns exactly 4 on \<open>[4,4]\<close>, exactly 6 on \<open>[5,5]\<close>
  and exactly 2 on \<open>[3,3]\<close>; on \<open>[4,4,4]\<close> it returns \<open>4 - 1/2^51\<close> and on
  \<open>[5,5,5]\<close> it returns \<open>6 - 1/2^50\<close>, each one unit in the last place below the whole
  number; and it returns 3.872983 on \<open>[3,5]\<close>, 16.892305 on \<open>[9,12]\<close>, 4.642203 on
  \<open>[4,4,5]\<close> and 5.308256 on \<open>[4,5,5]\<close>, each to within half a unit of the sixth decimal.
  The scores are the Python ints of the notebook's calls.
\<close>

theorem mean_plus_gmean_notebook_values:
  "mean_plus_gmean float64 (ints [4, 4]) default_k = Inr (Val 4)
   \<and> mean_plus_gmean float64 (ints [5, 5]) default_k = Inr (Val 6)
   \<and> mean_plus_gmean float64 (ints [3, 3]) default_k = Inr (Val 2)
   \<and> mean_plus_gmean float64 (ints [4, 4, 4]) default_k = Inr (Val (4 - 1 / 2 ^ 51))
   \<and> mean_plus_gmean float64 (ints [5, 5, 5]) default_k = Inr (Val (6 - 1 / 2 ^ 50))
   \<and> (\<exists>R. mean_plus_gmean float64 (ints [3, 5]) default_k = Inr (Val R)
          \<and> \<bar>R - 3872983 / 10 ^ 6\<bar> < 5 / 10 ^ 7)
   \<and> (\<exists>R. mean_plus_gmean float64 (ints [9, 12]) default_k = Inr (Val R)
          \<and> \<bar>R - 16892305 / 10 ^ 6\<bar> < 5 / 10 ^ 7)
   \<and> (\<exists>R. mean_plus_gmean float64 (ints [4, 4, 5]) default_k = Inr (Val R)
          \<and> \<bar>R - 4642203 / 10 ^ 6\<bar> < 5 / 10 ^ 7)
   \<and> (\<exists>R. mean_plus_gmean float64 (ints [4, 5, 5]) default_k = Inr (Val R)
          \<and> \<bar>R - 5308256 / 10 ^ 6\<bar> < 5 / 10 ^ 7)"
  unfolding default_k_def mean_plus_gmean_float64_ints
  using mean_plus_gmean_binary64_squares mean_plus_gmean_binary64_444
    mean_plus_gmean_binary64_555 mean_plus_gmean_binary64_35 mean_plus_gmean_binary64_9_12
    mean_plus_gmean_binary64_445 mean_plus_gmean_binary64_455
  by (intro conjI) assumption+

section \<open>The confidence interval\<close>

lemma binary64_idem_pos:
  assumes "0 < x"
  shows "binary64 (binary64 x) = binary64 x"
proof -
  define k where "k = \<lfloor>log 2 x\<rfloor>"
  define u :: real where "u = 2 powr of_int (k - 52)"
  define M where "M = rne (x / u)"
  have u: "0 < u" by (simp add: u_def)
  have bin: "2 powr of_int k \<le> x" "x < 2 powr (of_int k + 1)"
    using assms floor_log_eq_powr_iff [of x 2 k] by (simp_all add: k_def)
  have pk: "(2::real) powr of_int k = 2 ^ 52 * u"
    by (simp add: u_def powr_diff)
  have pk1: "(2::real) powr (of_int k + 1) = 2 ^ 53 * u"
    by (simp add: u_def powr_diff powr_add)
  have b: "binary64 x = of_int M * u"
    using assms by (simp add: binary64_def Let_def k_def u_def M_def)
  have "of_int (2 ^ 52) \<le> x / u" using bin(1) u by (simp add: pk pos_le_divide_eq)
  then have "rne (of_int (2 ^ 52)) \<le> rne (x / u)" by (rule rne_mono)
  then have lo: "2 ^ 52 \<le> M" unfolding rne_of_int M_def .
  have "x / u \<le> of_int (2 ^ 53)" using bin(2) u by (simp add: pk1 pos_divide_le_eq)
  then have "rne (x / u) \<le> rne (of_int (2 ^ 53))" by (rule rne_mono)
  then have hi: "M \<le> 2 ^ 53" unfolding rne_of_int M_def .
  show ?thesis
  proof (cases "M = 2 ^ 53")
    case True
    have "binary64 x = of_int 1 * 2 powr of_int (k + 1)"
      unfolding b True using pk1 by simp
    then show ?thesis using binary64_exact [of 1 "k + 1"] by simp
  next
    case False
    then have "\<bar>M\<bar> < 2 ^ 53" "M \<noteq> 0" using lo hi by simp_all
    then show ?thesis unfolding b u_def by (intro binary64_exact)
  qed
qed

lemma binary64_idem: "binary64 (binary64 x) = binary64 x"
proof -
  consider "0 < x" | "x = 0" | "0 < - x" by linarith
  then show ?thesis
  proof cases
    case 1
    then show ?thesis by (rule binary64_idem_pos)
  next
    case 2
    then show ?thesis by (simp add: binary64_zero)
  next
    case 3
    then show ?thesis using binary64_idem_pos [of "- x"] by (simp add: binary64_minus)
  qed
qed

lemma quantile_levels:
  "0 < binary64 (5 / 100)" "binary64 (5 / 100) < 1 / 2"
  "1 / 2 \<le> binary64 (95 / 100)" "binary64 (95 / 100) < 1"
proof -
  show "0 < binary64 (5 / 100)" by (rule binary64_pos) simp
  have q: "binary64 (1 / 4) = 1 / 4"
    using binary64_exact [of 1 "- 2"] by (simp add: powr_minus_divide)
  have "binary64 (5 / 100) \<le> binary64 (1 / 4)" by (rule binary64_mono) simp
  then show "binary64 (5 / 100) < 1 / 2" unfolding q by simp
  have "binary64 (1 / 2) \<le> binary64 (95 / 100)" by (rule binary64_mono) simp
  then show "1 / 2 \<le> binary64 (95 / 100)" unfolding binary64_half .
  have t: "binary64 (31 / 32) = 31 / 32"
    using binary64_exact [of 31 "- 5"] by (simp add: powr_minus_divide)
  have "binary64 (95 / 100) \<le> binary64 (31 / 32)" by (rule binary64_mono) simp
  then show "binary64 (95 / 100) < 1" unfolding t by simp
qed

lemma compute_ci_empty: "compute_ci rd sm ndtri [] = (NaN, NaN)"
  by (simp add: compute_ci_def np_mean_def np_std_def norm_ppf_def)

lemma np_std_nonempty:
  assumes "np_std rd sm data = Val s"
  shows "data \<noteq> []"
  using assms by (auto simp add: np_std_def np_mean_def)

lemma compute_ci_zero_std:
  assumes "rd 0 = 0" and "np_std rd sm data = Val 0"
  shows "compute_ci rd sm ndtri data = (NaN, NaN)"
proof -
  have ne: "data \<noteq> []" using assms(2) by (rule np_std_nonempty)
  then obtain m where m: "np_mean rd sm data = Val m" by (simp add: np_mean_def)
  have "np_divide rd (np_std rd sm data) (Val (rd (sqrt (real (length data))))) = NaN
        \<or> np_divide rd (np_std rd sm data) (Val (rd (sqrt (real (length data))))) = Val 0"
    by (simp add: assms)
  then show ?thesis
    by (auto simp add: compute_ci_def Let_def m norm_ppf_def)
qed

lemma compute_ci_pos_scale:
  assumes m: "np_mean rd sm data = Val m" and s: "np_std rd sm data = Val s"
    and r: "rd (sqrt (real (length data))) \<noteq> 0"
    and c: "0 < rd (s / rd (sqrt (real (length data))))"
    and q: "0 < rd (5 / 100)" "rd (5 / 100) < 1" "0 < rd (95 / 100)" "rd (95 / 100) < 1"
  shows "compute_ci rd sm ndtri data =
           (Val (rd (rd (ndtri (rd (5 / 100)) * rd (s / rd (sqrt (real (length data))))) + m)),
            Val (rd (rd (ndtri (rd (95 / 100)) * rd (s / rd (sqrt (real (length data))))) + m)))"
  using r c q by (simp add: compute_ci_def Let_def m s norm_ppf_def)

lemma np_mean_double:
  assumes "np_mean binary64 sm data = Val m"
  shows "binary64 m = m"
proof -
  have "m = binary64 (sm data / real (length data))"
    using assms by (simp add: np_mean_def split: if_splits)
  then show ?thesis by (simp only: binary64_idem)
qed

lemma np_std_double:
  assumes "np_std binary64 sm data = Val s"
  shows "binary64 s = s"
proof -
  have "\<exists>t. s = binary64 t"
    using assms by (auto simp add: np_std_def Let_def split: npfloat.splits)
  then show ?thesis by (auto simp only: binary64_idem)
qed

text \<open>
  The last step of \<open>compute_ci\<close> in binary64: the two ends lie on either side of the mean,
  and the two half-widths differ by the rounding errors and by the difference of the two
  quantiles only.
\<close>

lemma interval_binary64:
  fixes m c z5 z95 :: real
  assumes dm: "binary64 m = m" and c: "0 < c"
    and z5: "z5 < 0" "- 2 \<le> z5" and z95: "0 < z95" "z95 \<le> 2"
    and zz: "\<bar>z5 + z95\<bar> \<le> 1 / 2 ^ 50"
  defines "low \<equiv> binary64 (binary64 (z5 * c) + m)"
    and "high \<equiv> binary64 (binary64 (z95 * c) + m)"
  shows "low \<le> m" and "m \<le> high" and "\<bar>(m - low) - (high - m)\<bar> \<le> (\<bar>m\<bar> + 9 * c) / 2 ^ 52"
proof -
  define a b where "a = binary64 (z5 * c)" and "b = binary64 (z95 * c)"
  define U M U2 where "U = c / 2 ^ 53" and "M = \<bar>m\<bar> / 2 ^ 53" and "U2 = U / 2 ^ 53"
  have U: "0 < U" "c = 2 ^ 53 * U" using c by (simp_all add: U_def)
  have U2: "0 \<le> U2" "1000 * U2 \<le> U" using U(1) by (simp_all add: U2_def)
  have M: "0 \<le> M" by (simp add: M_def)
  have "z5 * c < 0" using z5(1) c by (simp add: mult_less_0_iff)
  then have "binary64 (z5 * c) \<le> binary64 0" by (intro binary64_mono) simp
  then have a0: "a \<le> 0" by (simp add: a_def binary64_zero)
  have "0 < z95 * c" using z95(1) c by simp
  then have "binary64 0 \<le> binary64 (z95 * c)" by (intro binary64_mono) simp
  then have b0: "0 \<le> b" by (simp add: b_def binary64_zero)
  have "binary64 (a + m) \<le> binary64 m" using a0 by (intro binary64_mono) simp
  then show lo: "low \<le> m" unfolding low_def a_def [symmetric] dm .
  have "binary64 m \<le> binary64 (b + m)" using b0 by (intro binary64_mono) simp
  then show hi: "m \<le> high" unfolding high_def b_def [symmetric] dm .
  have "\<bar>z5 * c\<bar> = \<bar>z5\<bar> * c" using c by (simp add: abs_mult)
  also have "\<dots> \<le> 2 * c" using z5 c by (intro mult_right_mono) simp_all
  finally have p5: "\<bar>z5 * c\<bar> \<le> 2 * c" .
  have "\<bar>z95 * c\<bar> = \<bar>z95\<bar> * c" using c by (simp add: abs_mult)
  also have "\<dots> \<le> 2 * c" using z95 c by (intro mult_right_mono) simp_all
  finally have p95: "\<bar>z95 * c\<bar> \<le> 2 * c" .
  have "\<bar>a - z5 * c\<bar> \<le> 2 * c / 2 ^ 53" unfolding a_def using p5 by (rule binary64_within)
  then have ea: "\<bar>a - z5 * c\<bar> \<le> 2 * U" by (simp add: U_def)
  have "\<bar>b - z95 * c\<bar> \<le> 2 * c / 2 ^ 53" unfolding b_def using p95 by (rule binary64_within)
  then have eb: "\<bar>b - z95 * c\<bar> \<le> 2 * U" by (simp add: U_def)
  have "z5 * c + z95 * c = (z5 + z95) * c" by (simp only: distrib_right)
  then have "\<bar>z5 * c + z95 * c\<bar> = \<bar>z5 + z95\<bar> * \<bar>c\<bar>" by (simp only: abs_mult)
  also have "\<bar>c\<bar> = c" using c by simp
  finally have "\<bar>z5 * c + z95 * c\<bar> = \<bar>z5 + z95\<bar> * c" .
  also have "\<bar>z5 + z95\<bar> * c \<le> 1 / 2 ^ 50 * c" using zz c by (intro mult_right_mono) simp_all
  also have "\<dots> = 8 * U" by (simp add: U_def)
  finally have ez: "\<bar>z5 * c + z95 * c\<bar> \<le> 8 * U" .
  have ab: "\<bar>a + b\<bar> \<le> 12 * U" using ea eb ez by linarith
  have am: "\<bar>a + m\<bar> \<le> 2 * c + 2 * U + \<bar>m\<bar>" using ea p5 by linarith
  have "\<bar>low - (a + m)\<bar> \<le> (2 * c + 2 * U + \<bar>m\<bar>) / 2 ^ 53"
    unfolding low_def a_def [symmetric] using am by (rule binary64_within)
  also have "\<dots> = 2 * U + 2 * U2 + M" by (simp add: U_def U2_def M_def add_divide_distrib)
  finally have el: "\<bar>low - (a + m)\<bar> \<le> 2 * U + 2 * U2 + M" .
  have bm: "\<bar>b + m\<bar> \<le> 2 * c + 2 * U + \<bar>m\<bar>" using eb p95 by linarith
  have "\<bar>high - (b + m)\<bar> \<le> (2 * c + 2 * U + \<bar>m\<bar>) / 2 ^ 53"
    unfolding high_def b_def [symmetric] using bm by (rule binary64_within)
  also have "\<dots> = 2 * U + 2 * U2 + M" by (simp add: U_def U2_def M_def add_divide_distrib)
  finally have eh: "\<bar>high - (b + m)\<bar> \<le> 2 * U + 2 * U2 + M" .
  have "\<bar>(m - low) - (high - m)\<bar> \<le> 2 * M + 18 * U" using el eh ab U2 by linarith
  also have "\<dots> = (\<bar>m\<bar> + 9 * c) / 2 ^ 52" by (simp add: U_def M_def add_divide_distrib)
  finally show "\<bar>(m - low) - (high - m)\<bar> \<le> (\<bar>m\<bar> + 9 * c) / 2 ^ 52" .
qed

text \<open>The scale handed to \<open>norm\<close> is positive and at most the standard deviation.\<close>

lemma scale_binary64:
  assumes ds: "binary64 s = s" and s: "0 < s" and n: "data \<noteq> []"
  defines "r \<equiv> binary64 (sqrt (real (length data)))"
  shows "r \<noteq> 0" and "0 < binary64 (s / r)" and "binary64 (s / r) \<le> s"
proof -
  have "1 \<le> real (length data)" using n by (cases data) simp_all
  then have "1 \<le> sqrt (real (length data))" by simp
  then have "binary64 1 \<le> r" unfolding r_def by (rule binary64_mono)
  then have r1: "1 \<le> r" by (simp only: binary64_one)
  then show "r \<noteq> 0" by simp
  have "0 < s / r" using s r1 by simp
  then show "0 < binary64 (s / r)" by (rule binary64_pos)
  have "s / r \<le> s" using s r1 by (simp add: field_simps)
  then have "binary64 (s / r) \<le> binary64 s" by (rule binary64_mono)
  then show "binary64 (s / r) \<le> s" by (simp only: ds)
qed

lemma compute_ci_binary64:
  assumes m: "np_mean binary64 sm data = Val m" and s: "np_std binary64 sm data = Val s"
    and pos: "0 < s"
    and z5: "ndtri (binary64 (5 / 100)) < 0" "- 2 \<le> ndtri (binary64 (5 / 100))"
    and z95: "0 < ndtri (binary64 (95 / 100))" "ndtri (binary64 (95 / 100)) \<le> 2"
    and zz: "\<bar>ndtri (binary64 (5 / 100)) + ndtri (binary64 (95 / 100))\<bar> \<le> 1 / 2 ^ 50"
  shows "\<exists>low high. compute_ci binary64 sm ndtri data = (Val low, Val high)
           \<and> low \<le> m \<and> m \<le> high
           \<and> \<bar>(m - low) - (high - m)\<bar> \<le> (\<bar>m\<bar> + 9 * s) / 2 ^ 52"
proof -
  define c where "c = binary64 (s / binary64 (sqrt (real (length data))))"
  define low where "low = binary64 (binary64 (ndtri (binary64 (5 / 100)) * c) + m)"
  define high where "high = binary64 (binary64 (ndtri (binary64 (95 / 100)) * c) + m)"
  have ne: "data \<noteq> []" using s by (rule np_std_nonempty)
  have dm: "binary64 m = m" using m by (rule np_mean_double)
  have ds: "binary64 s = s" using s by (rule np_std_double)
  note sc = scale_binary64 [OF ds pos ne]
  have c: "0 < c" "c \<le> s" unfolding c_def using sc(2,3) by simp_all
  have ci: "compute_ci binary64 sm ndtri data = (Val low, Val high)"
    unfolding low_def high_def c_def
    using sc(1,2) quantile_levels by (intro compute_ci_pos_scale [OF m s]) simp_all
  note i = interval_binary64 [OF dm c(1) z5 z95 zz]
  have "\<bar>(m - low) - (high - m)\<bar> \<le> (\<bar>m\<bar> + 9 * c) / 2 ^ 52"
    unfolding low_def high_def by (rule i(3))
  also have "\<dots> \<le> (\<bar>m\<bar> + 9 * s) / 2 ^ 52"
    using c(2) by (intro divide_right_mono) simp_all
  finally have sym: "\<bar>(m - low) - (high - m)\<bar> \<le> (\<bar>m\<bar> + 9 * s) / 2 ^ 52" .
  have "low \<le> m" "m \<le> high" unfolding low_def high_def by (rule i(1), rule i(2))
  then show ?thesis using ci sym by blast
qed

text \<open>In exact arithmetic, with opposite quantiles, the interval is symmetric.\<close>

lemma compute_ci_exact:
  assumes z: "ndtri (95 / 100) = - ndtri (5 / 100)" "ndtri (5 / 100) \<le> 0"
    and s: "np_std ideal sum_list data = Val s" and pos: "0 < s"
  shows "\<exists>m low high. np_mean ideal sum_list data = Val m
           \<and> compute_ci ideal sum_list ndtri data = (Val low, Val high)
           \<and> m - low = high - m \<and> low \<le> high"
proof -
  define c where "c = s / sqrt (real (length data))"
  have ne: "data \<noteq> []" using s by (rule np_std_nonempty)
  then obtain m where m: "np_mean ideal sum_list data = Val m" by (simp add: np_mean_def)
  have n: "0 < sqrt (real (length data))" using ne by simp
  have c: "0 < c" unfolding c_def using pos n by simp
  have ci: "compute_ci ideal sum_list ndtri data =
               (Val (ndtri (5 / 100) * c + m), Val (ndtri (95 / 100) * c + m))"
    using compute_ci_pos_scale [OF m s, of ndtri] n c
    by (simp add: ideal_def c_def)
  define z where "z = ndtri (5 / 100)"
  have z95: "ndtri (95 / 100) = - z" unfolding z_def by (rule z(1))
  have z0: "z \<le> 0" unfolding z_def by (rule z(2))
  have zc: "z * c \<le> 0" using z0 c by (intro mult_nonpos_nonneg) simp_all
  have sym: "m - (ndtri (5 / 100) * c + m) = (ndtri (95 / 100) * c + m) - m"
    unfolding z95 z_def [symmetric] by simp
  have ord: "ndtri (5 / 100) * c + m \<le> ndtri (95 / 100) * c + m"
    unfolding z95 z_def [symmetric] using zc by linarith
  show ?thesis using m ci sym ord by blast
qed

text \<open>
  Two small data sets in binary64, with the values of scipy's \<open>ndtri\<close>: a single value,
  whose standard deviation is 0, and \<open>[0, 0, 2, 2]\<close>, whose mean and standard deviation
  are both 1 and whose scale is \<open>1/2\<close>.
\<close>

lemma ndtri_scipy_levels:
  "ndtri_scipy (binary64 (5 / 100)) = - (3703881090708831 / 2 ^ 51)"
  "ndtri_scipy (binary64 (95 / 100)) = 7407762181417659 / 2 ^ 52"
  using quantile_levels(2,3) by (simp_all add: ndtri_scipy_def)

lemma ndtri_scipy_facts:
  "ndtri_scipy (binary64 (5 / 100)) < 0" "- 2 \<le> ndtri_scipy (binary64 (5 / 100))"
  "0 < ndtri_scipy (binary64 (95 / 100))" "ndtri_scipy (binary64 (95 / 100)) \<le> 2"
  "\<bar>ndtri_scipy (binary64 (5 / 100)) + ndtri_scipy (binary64 (95 / 100))\<bar> \<le> 1 / 2 ^ 50"
  unfolding ndtri_scipy_levels by simp_all

lemma single_value:
  "np_mean binary64 (sum_float64 binary64) [5] = Val 5"
  "np_std binary64 (sum_float64 binary64) [5] = Val 0"
  by (simp_all add: np_std_def np_mean_def sum_float64_def binary64_numeral binary64_zero)

lemma four_values:
  "np_mean binary64 (sum_float64 binary64) [0, 0, 2, 2] = Val 1"
  "np_std binary64 (sum_float64 binary64) [0, 0, 2, 2] = Val 1"
proof -
  show m: "np_mean binary64 (sum_float64 binary64) [0, 0, 2, 2] = Val 1"
    by (simp add: np_mean_def sum_float64_def binary64_numeral binary64_zero binary64_one)
  show "np_std binary64 (sum_float64 binary64) [0, 0, 2, 2] = Val 1"
    by (simp add: np_std_def m sum_float64_def binary64_numeral binary64_zero binary64_one
        binary64_minus)
qed

lemma four_values_interval:
  "compute_ci binary64 (sum_float64 binary64) ndtri_scipy [0, 0, 2, 2]
     = (Val (799718536661665 / 2 ^ 52), Val (4103740359039663 / 2 ^ 51))"
proof -
  have r: "binary64 (sqrt (real (length [0, 0, 2, 2 :: real]))) = 2"
    by (simp add: binary64_numeral)
  have c: "binary64 (1 / binary64 (sqrt (real (length [0, 0, 2, 2 :: real])))) = 1 / 2"
    unfolding r by (rule binary64_half)
  have r': "binary64 (sqrt (real (length [0, 0, 2, 2 :: real]))) \<noteq> 0" unfolding r by simp
  have c': "0 < binary64 (1 / binary64 (sqrt (real (length [0, 0, 2, 2 :: real]))))"
    unfolding c by simp
  have q1: "binary64 (5 / 100) < 1" using quantile_levels(2) by linarith
  have q2: "0 < binary64 (95 / 100)" using quantile_levels(3) by linarith
  have a: "binary64 (3703881090708831 / 2 ^ 52) = 3703881090708831 / 2 ^ 52"
    using binary64_round_pow [where p = 53 and x = "3703881090708831 / 2 ^ 52"
        and m = 7407762181417662] by simp
  have a': "binary64 (- (3703881090708831 / 2 ^ 51) * (1 / 2)) = - (3703881090708831 / 2 ^ 52)"
  proof -
    have "- (3703881090708831 / 2 ^ 51) * (1 / 2) = - (3703881090708831 / 2 ^ 52 :: real)"
      by simp
    then show ?thesis by (simp only: binary64_minus a)
  qed
  have lo: "binary64 (- (3703881090708831 / 2 ^ 52) + 1) = 799718536661665 / 2 ^ 52"
    using binary64_round_pow [where p = 55 and x = "- (3703881090708831 / 2 ^ 52) + 1"
        and m = 6397748293293320] by simp
  have b: "binary64 (7407762181417659 / 2 ^ 52 * (1 / 2)) = 7407762181417659 / 2 ^ 53"
    using binary64_round_pow [where p = 53 and x = "7407762181417659 / 2 ^ 52 * (1 / 2)"
        and m = 7407762181417659] by simp
  have hi: "binary64 (7407762181417659 / 2 ^ 53 + 1) = 4103740359039663 / 2 ^ 51"
    using binary64_tie_pow [where p = 52 and x = "7407762181417659 / 2 ^ 53 + 1"
        and m = 8207480718079325] by simp
  have "compute_ci binary64 (sum_float64 binary64) ndtri_scipy [0, 0, 2, 2] =
     (Val (binary64 (binary64 (ndtri_scipy (binary64 (5 / 100))
             * binary64 (1 / binary64 (sqrt (real (length [0, 0, 2, 2 :: real]))))) + 1)),
      Val (binary64 (binary64 (ndtri_scipy (binary64 (95 / 100))
             * binary64 (1 / binary64 (sqrt (real (length [0, 0, 2, 2 :: real]))))) + 1)))"
    by (rule compute_ci_pos_scale [OF four_values r' c' quantile_levels(1) q1 q2
          quantile_levels(4)])
  then show ?thesis by (simp only: c ndtri_scipy_levels a' lo b hi)
qed

text \<open>
  Claim C10 says that for every nonempty data sequence \<open>compute_ci\<close> returns an interval
  \<open>[low, high]\<close> that is symmetric about the sample mean, with \<open>low \<le> high\<close> whenever
  the standard deviation is not negative. For data without spread the scale handed to
  \<open>norm\<close> is 0, and \<open>ppf\<close> returns \<open>nan\<close> for both ends: on the single value
  \<open>[5]\<close> the standard deviation is 0 and the result is \<open>[nan, nan]\<close>. And the interval
  is not symmetric: scipy's \<open>ndtri(0.05)\<close> and \<open>ndtri(0.95)\<close> are not opposite, and
  every step is rounded. On \<open>[0, 0, 2, 2]\<close>, with mean 1, the lower end is
  \<open>3703881090708831 / 2^52\<close> below the mean and the upper end
  \<open>3703881090708830 / 2^52\<close> above it.
\<close>

theorem compute_ci_interval_counterexample:
  "np_std binary64 (sum_float64 binary64) [5] = Val 0
   \<and> compute_ci binary64 (sum_float64 binary64) ndtri_scipy [5] = (NaN, NaN)
   \<and> np_mean binary64 (sum_float64 binary64) [0, 0, 2, 2] = Val 1
   \<and> compute_ci binary64 (sum_float64 binary64) ndtri_scipy [0, 0, 2, 2]
       = (Val (799718536661665 / 2 ^ 52), Val (4103740359039663 / 2 ^ 51))
   \<and> (1 - 799718536661665 / 2 ^ 52 :: real) = 3703881090708831 / 2 ^ 52
   \<and> (4103740359039663 / 2 ^ 51 - 1 :: real) = 3703881090708830 / 2 ^ 52
   \<and> (1 - 799718536661665 / 2 ^ 52 :: real) \<noteq> 4103740359039663 / 2 ^ 51 - 1"
proof -
  have n: "compute_ci binary64 (sum_float64 binary64) ndtri_scipy [5] = (NaN, NaN)"
    using single_value(2) by (intro compute_ci_zero_std) (simp_all add: binary64_zero)
  have e: "(1 - 799718536661665 / 2 ^ 52 :: real) = 3703881090708831 / 2 ^ 52"
    "(4103740359039663 / 2 ^ 51 - 1 :: real) = 3703881090708830 / 2 ^ 52"
    "(1 - 799718536661665 / 2 ^ 52 :: real) \<noteq> 4103740359039663 / 2 ^ 51 - 1"
    by simp_all
  show ?thesis using single_value(2) n four_values(1) four_values_interval e by (intro conjI)
qed

text \<open>
  Claim C10, amended. For every data sequence of moderate size whose standard deviation,
  as \<open>np.std\<close> computes it, is positive (at least \<open>2^-400\<close>), \<open>compute_ci\<close> returns
  two numbers \<open>low\<close> and \<open>high\<close> with \<open>low \<le> m \<le> high\<close>, where \<open>m\<close> is the mean as
  \<open>np.mean\<close> computes it, and the interval is symmetric about \<open>m\<close> up to rounding: the
  two half-widths \<open>m - low\<close> and \<open>high - m\<close> differ by at most \<open>(|m| + 9 s) / 2^52\<close>.
  This holds for every quantile function whose values at 0.05 and 0.95 are negative and
  positive, at most 2 in size and opposite to within \<open>2^-50\<close>, as the values of scipy's
  \<open>ndtri\<close> are, and however \<open>np.add.reduce\<close> orders its additions. When the computed
  standard deviation is 0 (a single value, for one) and when the data are empty, both
  entries are \<open>nan\<close>. In exact arithmetic and for a quantile function with
  \<open>ndtri(0.95) = - ndtri(0.05)\<close>, the interval is symmetric about the mean exactly.
\<close>

theorem compute_ci_interval:
  "(moderate_data data \<and> np_mean binary64 sm data = Val m \<and> np_std binary64 sm data = Val s
      \<and> 1 / 2 ^ 400 \<le> s
      \<and> ndtri (binary64 (5 / 100)) < 0 \<and> - 2 \<le> ndtri (binary64 (5 / 100))
      \<and> 0 < ndtri (binary64 (95 / 100)) \<and> ndtri (binary64 (95 / 100)) \<le> 2
      \<and> \<bar>ndtri (binary64 (5 / 100)) + ndtri (binary64 (95 / 100))\<bar> \<le> 1 / 2 ^ 50
     \<longrightarrow> (\<exists>low high. compute_ci binary64 sm ndtri data = (Val low, Val high)
            \<and> low \<le> m \<and> m \<le> high \<and> low \<le> high
            \<and> \<bar>(m - low) - (high - m)\<bar> \<le> (\<bar>m\<bar> + 9 * s) / 2 ^ 52))
   \<and> (moderate_data data \<and> np_std binary64 sm data = Val 0
        \<longrightarrow> compute_ci binary64 sm ndtri data = (NaN, NaN))
   \<and> compute_ci binary64 sm ndtri [] = (NaN, NaN)
   \<and> (nd (95 / 100) = - nd (5 / 100) \<and> nd (5 / 100) \<le> 0
        \<and> np_std ideal sum_list xs = Val t \<and> 0 < t
        \<longrightarrow> (\<exists>a low high. np_mean ideal sum_list xs = Val a
               \<and> compute_ci ideal sum_list nd xs = (Val low, Val high)
               \<and> a - low = high - a \<and> low \<le> high))"
proof (intro conjI impI)
  assume h: "moderate_data data \<and> np_mean binary64 sm data = Val m
      \<and> np_std binary64 sm data = Val s \<and> 1 / 2 ^ 400 \<le> s
      \<and> ndtri (binary64 (5 / 100)) < 0 \<and> - 2 \<le> ndtri (binary64 (5 / 100))
      \<and> 0 < ndtri (binary64 (95 / 100)) \<and> ndtri (binary64 (95 / 100)) \<le> 2
      \<and> \<bar>ndtri (binary64 (5 / 100)) + ndtri (binary64 (95 / 100))\<bar> \<le> 1 / 2 ^ 50"
  then have m: "np_mean binary64 sm data = Val m" and s: "np_std binary64 sm data = Val s"
    and z5: "ndtri (binary64 (5 / 100)) < 0" "- 2 \<le> ndtri (binary64 (5 / 100))"
    and z95: "0 < ndtri (binary64 (95 / 100))" "ndtri (binary64 (95 / 100)) \<le> 2"
    and zz: "\<bar>ndtri (binary64 (5 / 100)) + ndtri (binary64 (95 / 100))\<bar> \<le> 1 / 2 ^ 50"
    by simp_all
  have "(0::real) < 1 / 2 ^ 400" by simp
  then have pos: "0 < s" using h by linarith
  obtain low high where c: "compute_ci binary64 sm ndtri data = (Val low, Val high)"
    and o: "low \<le> m" "m \<le> high"
    and y: "\<bar>(m - low) - (high - m)\<bar> \<le> (\<bar>m\<bar> + 9 * s) / 2 ^ 52"
    using compute_ci_binary64 [OF m s pos z5 z95 zz] by blast
  have "low \<le> high" using o by linarith
  then show "\<exists>low high. compute_ci binary64 sm ndtri data = (Val low, Val high)
            \<and> low \<le> m \<and> m \<le> high \<and> low \<le> high
            \<and> \<bar>(m - low) - (high - m)\<bar> \<le> (\<bar>m\<bar> + 9 * s) / 2 ^ 52"
    using c o y by blast
next
  assume "moderate_data data \<and> np_std binary64 sm data = Val 0"
  then show "compute_ci binary64 sm ndtri data = (NaN, NaN)"
    by (intro compute_ci_zero_std) (simp_all add: binary64_zero)
next
  show "compute_ci binary64 sm ndtri [] = (NaN, NaN)" by (rule compute_ci_empty)
next
  assume "nd (95 / 100) = - nd (5 / 100) \<and> nd (5 / 100) \<le> 0
        \<and> np_std ideal sum_list xs = Val t \<and> 0 < t"
  then have "nd (95 / 100) = - nd (5 / 100)" "nd (5 / 100) \<le> 0"
    "np_std ideal sum_list xs = Val t" "0 < t" by simp_all
  then show "\<exists>a low high. np_mean ideal sum_list xs = Val a
               \<and> compute_ci ideal sum_list nd xs = (Val low, Val high)
               \<and> a - low = high - a \<and> low \<le> high"
    by (rule compute_ci_exact)
qed

theorem compute_ci_interval_witness:
  "moderate_data [0, 0, 2, 2]
   \<and> np_mean binary64 (sum_float64 binary64) [0, 0, 2, 2] = Val 1
   \<and> np_std binary64 (sum_float64 binary64) [0, 0, 2, 2] = Val 1
   \<and> (1 / 2 ^ 400 :: real) \<le> 1
   \<and> ndtri_scipy (binary64 (5 / 100)) < 0 \<and> - 2 \<le> ndtri_scipy (binary64 (5 / 100))
   \<and> 0 < ndtri_scipy (binary64 (95 / 100)) \<and> ndtri_scipy (binary64 (95 / 100)) \<le> 2
   \<and> \<bar>ndtri_scipy (binary64 (5 / 100)) + ndtri_scipy (binary64 (95 / 100))\<bar> \<le> 1 / 2 ^ 50
   \<and> (\<exists>low high. compute_ci binary64 (sum_float64 binary64) ndtri_scipy [0, 0, 2, 2]
                    = (Val low, Val high)
            \<and> low \<le> 1 \<and> 1 \<le> high \<and> low \<le> high
            \<and> \<bar>(1 - low) - (high - 1)\<bar> \<le> (\<bar>1\<bar> + 9 * 1) / 2 ^ 52)
   \<and> moderate_data [5] \<and> np_std binary64 (sum_float64 binary64) [5] = Val 0
   \<and> compute_ci binary64 (sum_float64 binary64) ndtri_scipy [5] = (NaN, NaN)
   \<and> compute_ci binary64 (sum_float64 binary64) ndtri_scipy [] = (NaN, NaN)
   \<and> ndtri_symmetric (95 / 100) = - ndtri_symmetric (5 / 100)
   \<and> ndtri_symmetric (5 / 100) \<le> 0
   \<and> np_std ideal sum_list [9, 11] = Val 1 \<and> (0::real) < 1
   \<and> (\<exists>a low high. np_mean ideal sum_list [9, 11] = Val a
               \<and> compute_ci ideal sum_list ndtri_symmetric [9, 11] = (Val low, Val high)
               \<and> a - low = high - a \<and> low \<le> high)"
proof -
  have d: "moderate_data [0, 0, 2, 2]" "moderate_data [5]" by (simp_all add: moderate_data_def)
  have k: "(1 / 2 ^ 400 :: real) \<le> 1" "(0::real) < 1" by simp_all
  have y: "ndtri_symmetric (95 / 100) = - ndtri_symmetric (5 / 100)"
    "ndtri_symmetric (5 / 100) \<le> 0"
    by (simp_all add: ndtri_symmetric_def)
  have e: "np_std ideal sum_list [9, 11] = Val 1"
    by (simp add: np_std_def np_mean_def ideal_def)
  note t1 = compute_ci_interval [of "[0, 0, 2, 2]" "sum_float64 binary64" 1 1 ndtri_scipy
      ndtri_symmetric "[9, 11]" 1]
  note t2 = compute_ci_interval [of "[5]" "sum_float64 binary64" 5 0 ndtri_scipy
      ndtri_symmetric "[9, 11]" 1]
  have 1: "\<exists>low high. compute_ci binary64 (sum_float64 binary64) ndtri_scipy [0, 0, 2, 2]
                    = (Val low, Val high)
            \<and> low \<le> 1 \<and> 1 \<le> high \<and> low \<le> high
            \<and> \<bar>(1 - low) - (high - 1)\<bar> \<le> (\<bar>1\<bar> + 9 * 1) / 2 ^ 52"
    using t1 d(1) four_values k(1) ndtri_scipy_facts by blast
  have 2: "compute_ci binary64 (sum_float64 binary64) ndtri_scipy [5] = (NaN, NaN)"
    using t2 d(2) single_value(2) by blast
  have 3: "compute_ci binary64 (sum_float64 binary64) ndtri_scipy [] = (NaN, NaN)"
    using t1 by blast
  have 4: "\<exists>a low high. np_mean ideal sum_list [9, 11] = Val a
               \<and> compute_ci ideal sum_list ndtri_symmetric [9, 11] = (Val low, Val high)
               \<and> a - low = high - a \<and> low \<le> high"
    using t1 y e k(2) by blast
  show ?thesis
    using d(1) four_values k(1) ndtri_scipy_facts 1 d(2) single_value(2) 2 3 y e k(2) 4
    by (intro conjI)
qed

end
